theory Spec2Isabelle
  imports Main "HOL-Library.Word" "HOL-Library.Multiset"
begin

section \<open>Data model of package rdl, as schemabuilder.go uses it\<close>

text \<open>
  The Go string types \<^verbatim>\<open>Identifier\<close>, \<^verbatim>\<open>NamespacedIdentifier\<close>, \<^verbatim>\<open>TypeName\<close> and
  \<^verbatim>\<open>TypeRef\<close> are strings; \<^verbatim>\<open>int32\<close> is a 32-bit word. A Go pointer \<^verbatim>\<open>*T\<close> that may
  be nil is a \<open>T option\<close>, with \<open>None\<close> for nil. Two records may have a field of the
  same name (as the Go structs do), so every field is written with its record's name:
  \<open>AliasTypeDef.Name d\<close>.
\<close>

type_synonym Identifier = string
type_synonym NamespacedIdentifier = string
type_synonym TypeName = string
type_synonym TypeRef = string
type_synonym int32 = "32 word"

text \<open>
  The only failure the builder code can run into is Go's run-time panic on reading a field
  through a nil pointer. It carries no type name and no reference name.
\<close>

datatype error = NilPointerDereference

text \<open>
  Modelled from the spec: the declarations of the descriptor structs (\<^verbatim>\<open>Type\<close>, the eight
  \<^verbatim>\<open>...TypeDef\<close> structs, \<^verbatim>\<open>StructFieldDef\<close>, \<^verbatim>\<open>EnumElementDef\<close>, \<^verbatim>\<open>Number\<close>, \<^verbatim>\<open>Resource\<close>
  and its parts, \<^verbatim>\<open>Schema\<close>) are in a file of package rdl that is not among the sources.
  The fields are the ones schemabuilder.go reads and writes, with the types the spec's data
  model gives them. A floating-point bound of a \<^verbatim>\<open>Number\<close> is carried as its bit pattern;
  a Go \<^verbatim>\<open>interface{}\<close> value (a default) as a \<open>dynamic\<close>.
\<close>

datatype dynamic = DynNil | DynBool bool | DynInt int | DynString string

datatype Number =
    NumberVariantInt8 "8 word"
  | NumberVariantInt16 "16 word"
  | NumberVariantInt32 "32 word"
  | NumberVariantInt64 "64 word"
  | NumberVariantFloat32 "32 word"
  | NumberVariantFloat64 "64 word"

record AliasTypeDef =
  Type :: TypeRef
  Name :: TypeName
  Comment :: string

record StringTypeDef =
  Type :: TypeRef
  Name :: TypeName
  Comment :: string
  Pattern :: string
  Values :: "string list option"
  MinSize :: "int32 option"
  MaxSize :: "int32 option"

record NumberTypeDef =
  Type :: TypeRef
  Name :: TypeName
  Comment :: string
  Min :: "Number option"
  Max :: "Number option"

record StructFieldDef =
  Name :: Identifier
  Type :: TypeRef
  Optional :: bool
  Default :: dynamic
  Comment :: string
  Items :: TypeRef
  Keys :: TypeRef

record StructTypeDef =
  Type :: TypeRef
  Name :: TypeName
  Comment :: string
  Fields :: "StructFieldDef list"

record ArrayTypeDef =
  Type :: TypeRef
  Name :: TypeName
  Comment :: string
  Items :: TypeRef

record MapTypeDef =
  Type :: TypeRef
  Name :: TypeName
  Comment :: string
  Keys :: TypeRef
  Items :: TypeRef

record EnumElementDef =
  Symbol :: Identifier
  Comment :: string

record EnumTypeDef =
  Type :: TypeRef
  Name :: TypeName
  Comment :: string
  Elements :: "EnumElementDef list"

record UnionTypeDef =
  Type :: TypeRef
  Name :: TypeName
  Comment :: string
  Variants :: "TypeRef list"

text \<open>
  A \<^verbatim>\<open>Type\<close> is a variant tag together with the one descriptor the tag selects; the
  pointer fields of the other variants are nil. Every \<^verbatim>\<open>Build\<close> of a type builder sets the
  tag and exactly the matching pointer.
\<close>

datatype Type =
    TypeVariantAliasTypeDef AliasTypeDef
  | TypeVariantStringTypeDef StringTypeDef
  | TypeVariantNumberTypeDef NumberTypeDef
  | TypeVariantStructTypeDef StructTypeDef
  | TypeVariantArrayTypeDef ArrayTypeDef
  | TypeVariantMapTypeDef MapTypeDef
  | TypeVariantEnumTypeDef EnumTypeDef
  | TypeVariantUnionTypeDef UnionTypeDef

record ExceptionDef =
  Type :: string
  Comment :: string

record ResourceInput =
  Name :: Identifier
  Type :: TypeRef
  Comment :: string
  PathParam :: bool
  QueryParam :: string
  Header :: string
  Default :: dynamic
  Optional :: bool

record ResourceOutput =
  Name :: Identifier
  Type :: TypeRef
  Comment :: string
  Header :: string
  Optional :: bool

record ResourceAuth =
  Authenticate :: bool
  Action :: string
  Resource :: string
  Domain :: string

text \<open>
  \<^verbatim>\<open>Exceptions\<close> is a Go map that starts out nil: \<open>None\<close> is the nil map, \<open>Some m\<close> a map
  that has been made.
\<close>

record Resource =
  Type :: TypeRef
  Method :: string
  Path :: string
  Comment :: string
  Inputs :: "ResourceInput list"
  Outputs :: "ResourceOutput list"
  Auth :: "ResourceAuth option"
  Expected :: string
  Exceptions :: "(string \<rightharpoonup> ExceptionDef) option"
  Name :: Identifier

record Schema =
  Name :: Identifier
  Namespace :: NamespacedIdentifier
  Version :: "int32 option"
  Base :: string
  Comment :: string
  Types :: "Type option list"
  Resources :: "Resource option list"

text \<open>
  Modelled from the spec: \<^verbatim>\<open>TypeInfo\<close> is a function of package rdl outside the sources. It
  returns the common attributes of a descriptor: its own name, its supertype name and its
  comment. It reads them through the pointer it is given, so a nil pointer is a nil
  dereference.
\<close>

fun TypeInfo :: "Type option \<Rightarrow> error + (TypeName \<times> TypeRef \<times> string)" where
  "TypeInfo None = Inl NilPointerDereference"
| "TypeInfo (Some (TypeVariantAliasTypeDef d)) =
     Inr (AliasTypeDef.Name d, AliasTypeDef.Type d, AliasTypeDef.Comment d)"
| "TypeInfo (Some (TypeVariantStringTypeDef d)) =
     Inr (StringTypeDef.Name d, StringTypeDef.Type d, StringTypeDef.Comment d)"
| "TypeInfo (Some (TypeVariantNumberTypeDef d)) =
     Inr (NumberTypeDef.Name d, NumberTypeDef.Type d, NumberTypeDef.Comment d)"
| "TypeInfo (Some (TypeVariantStructTypeDef d)) =
     Inr (StructTypeDef.Name d, StructTypeDef.Type d, StructTypeDef.Comment d)"
| "TypeInfo (Some (TypeVariantArrayTypeDef d)) =
     Inr (ArrayTypeDef.Name d, ArrayTypeDef.Type d, ArrayTypeDef.Comment d)"
| "TypeInfo (Some (TypeVariantMapTypeDef d)) =
     Inr (MapTypeDef.Name d, MapTypeDef.Type d, MapTypeDef.Comment d)"
| "TypeInfo (Some (TypeVariantEnumTypeDef d)) =
     Inr (EnumTypeDef.Name d, EnumTypeDef.Type d, EnumTypeDef.Comment d)"
| "TypeInfo (Some (TypeVariantUnionTypeDef d)) =
     Inr (UnionTypeDef.Name d, UnionTypeDef.Type d, UnionTypeDef.Comment d)"

text \<open>
  Modelled from the spec: \<^verbatim>\<open>namesBaseType\<close> is a table of package rdl outside the sources;
  finalize seeds the resolved set "with every Base Type name".
\<close>

definition namesBaseType :: "string list" where
  "namesBaseType =
     [''Bool'', ''Int8'', ''Int16'', ''Int32'', ''Int64'', ''Float32'', ''Float64'',
      ''Bytes'', ''String'', ''Timestamp'', ''Symbol'', ''UUID'',
      ''Array'', ''Map'', ''Struct'', ''Enum'', ''Union'', ''Any'']"

text \<open>
  The three pointer fields of a \<^verbatim>\<open>Type\<close> that \<^verbatim>\<open>resolve\<close> reads through. \<^verbatim>\<open>t.ArrayTypeDef.Items\<close>
  panics when \<open>t\<close> is nil and when \<open>t\<close> is of another variant (its \<^verbatim>\<open>ArrayTypeDef\<close> is nil).
\<close>

fun Type_ArrayTypeDef :: "Type option \<Rightarrow> error + ArrayTypeDef" where
  "Type_ArrayTypeDef (Some (TypeVariantArrayTypeDef d)) = Inr d"
| "Type_ArrayTypeDef _ = Inl NilPointerDereference"

fun Type_MapTypeDef :: "Type option \<Rightarrow> error + MapTypeDef" where
  "Type_MapTypeDef (Some (TypeVariantMapTypeDef d)) = Inr d"
| "Type_MapTypeDef _ = Inl NilPointerDereference"

fun Type_StructTypeDef :: "Type option \<Rightarrow> error + StructTypeDef" where
  "Type_StructTypeDef (Some (TypeVariantStructTypeDef d)) = Inr d"
| "Type_StructTypeDef _ = Inl NilPointerDereference"

section \<open>The schema builder\<close>

record SchemaBuilder =
  proto :: Schema
  err :: "error option"

definition NewSchemaBuilder :: "string \<Rightarrow> SchemaBuilder" where
  "NewSchemaBuilder name =
     \<lparr>SchemaBuilder.proto =
        \<lparr>Schema.Name = name, Schema.Namespace = [], Schema.Version = None, Schema.Base = [],
         Schema.Comment = [], Schema.Types = [], Schema.Resources = []\<rparr>,
      SchemaBuilder.err = None\<rparr>"

definition SchemaBuilder_AddType :: "SchemaBuilder \<Rightarrow> Type option \<Rightarrow> SchemaBuilder" where
  "SchemaBuilder_AddType sb t =
     sb\<lparr>SchemaBuilder.proto :=
          (SchemaBuilder.proto sb)\<lparr>Schema.Types := Schema.Types (SchemaBuilder.proto sb) @ [t]\<rparr>\<rparr>"

definition SchemaBuilder_AddResource :: "SchemaBuilder \<Rightarrow> Resource option \<Rightarrow> SchemaBuilder" where
  "SchemaBuilder_AddResource sb r =
     sb\<lparr>SchemaBuilder.proto :=
          (SchemaBuilder.proto sb)
            \<lparr>Schema.Resources := Schema.Resources (SchemaBuilder.proto sb) @ [r]\<rparr>\<rparr>"

definition isBaseType :: "string \<Rightarrow> bool" where
  "isBaseType name =
     (if name \<in> set [''Bool'', ''Int8'', ''Int16'', ''Int32'', ''Int64'', ''Float32'', ''Float64'']
      then True
      else if name \<in> set [''String'', ''Bytes'', ''Timestamp'', ''Symbol'', ''UUID'']
      then True
      else if name \<in> set [''Struct'', ''Array'', ''Map'', ''Enum'', ''Union'', ''Any'']
      then True
      else False)"

text \<open>
  \<^verbatim>\<open>resolve\<close> and \<^verbatim>\<open>resolveRef\<close> call each other with no bound in the source, so the model
  takes fuel: the number of nested \<^verbatim>\<open>resolve\<close> calls still allowed. \<open>None\<close> says that the
  fuel ran out; \<open>Some (Inl e)\<close> is a panic; \<open>Some (Inr (ordered, resolved))\<close> is a return.
  The slice \<^verbatim>\<open>ordered\<close> is returned by the source; the map \<^verbatim>\<open>resolved\<close> is mutated in place,
  so the model returns it as well. \<^verbatim>\<open>resolveFields\<close> is the loop over the fields in the
  \<^verbatim>\<open>Struct\<close> case.
\<close>

function (sequential) resolve :: "nat \<Rightarrow> Type option list \<Rightarrow> (string \<rightharpoonup> bool) \<Rightarrow> (string \<rightharpoonup> Type) \<Rightarrow> string \<Rightarrow> string
      \<Rightarrow> (error + Type option list \<times> (string \<rightharpoonup> bool)) option"
  and resolveRef :: "nat \<Rightarrow> Type option list \<Rightarrow> (string \<rightharpoonup> bool) \<Rightarrow> (string \<rightharpoonup> Type) \<Rightarrow> string
      \<Rightarrow> (error + Type option list \<times> (string \<rightharpoonup> bool)) option"
  and resolveFields :: "nat \<Rightarrow> Type option list \<Rightarrow> (string \<rightharpoonup> bool) \<Rightarrow> (string \<rightharpoonup> Type)
      \<Rightarrow> StructFieldDef list \<Rightarrow> (error + Type option list \<times> (string \<rightharpoonup> bool)) option"
where
  "resolve 0 ordered resolved all name super = None"
| "resolve (Suc n) ordered resolved all name super =
     (if resolved name \<noteq> None \<or> isBaseType name then Some (Inr (ordered, resolved))
      else
        let t = all name in
        (case
           (if super \<in> set [''String'', ''Bytes'', ''Bool'', ''Int8'', ''Int16'', ''Int32'',
                             ''Int64'', ''Float32'', ''Float64'', ''UUID'', ''Timestamp'']
            then Some (Inr (ordered, resolved))
            else if super = ''Array'' then
              (case Type_ArrayTypeDef t of
                 Inl e \<Rightarrow> Some (Inl e)
               | Inr d \<Rightarrow> resolveRef n ordered resolved all (ArrayTypeDef.Items d))
            else if super = ''Map'' then
              (case Type_MapTypeDef t of
                 Inl e \<Rightarrow> Some (Inl e)
               | Inr d \<Rightarrow>
                   (case resolveRef n ordered resolved all (MapTypeDef.Items d) of
                      None \<Rightarrow> None
                    | Some (Inl e) \<Rightarrow> Some (Inl e)
                    | Some (Inr (ordered1, resolved1)) \<Rightarrow>
                        resolveRef n ordered1 resolved1 all (MapTypeDef.Keys d)))
            else if super = ''Struct'' then
              (case Type_StructTypeDef t of
                 Inl e \<Rightarrow> Some (Inl e)
               | Inr d \<Rightarrow> resolveFields n ordered resolved all (StructTypeDef.Fields d))
            else resolveRef n ordered resolved all super)
         of
           None \<Rightarrow> None
         | Some (Inl e) \<Rightarrow> Some (Inl e)
         | Some (Inr (ordered', resolved')) \<Rightarrow>
             Some (Inr (ordered' @ [t], resolved'(name \<mapsto> True)))))"
| "resolveRef n ordered resolved all ref =
     (if \<not> isBaseType ref then
        (case TypeInfo (all ref) of
           Inl e \<Rightarrow> Some (Inl e)
         | Inr (_, super, _) \<Rightarrow> resolve n ordered resolved all ref super)
      else Some (Inr (ordered, resolved)))"
| "resolveFields n ordered resolved all [] = Some (Inr (ordered, resolved))"
| "resolveFields n ordered resolved all (f # fs) =
     (case resolveRef n ordered resolved all (StructFieldDef.Type f) of
        None \<Rightarrow> None
      | Some (Inl e) \<Rightarrow> Some (Inl e)
      | Some (Inr (ordered1, resolved1)) \<Rightarrow> resolveFields n ordered1 resolved1 all fs)"

  by pat_completeness auto
termination
  by (relation "inv_image (less_than <*lex*> less_than)
        (\<lambda>x. case x of
           Inl (n, _) \<Rightarrow> (n, 0)
         | Inr (Inl (n, _)) \<Rightarrow> (n, Suc 0)
         | Inr (Inr (n, _, _, _, fs)) \<Rightarrow> (n, Suc (Suc (length fs))))") auto

text \<open>The two loops of \<^verbatim>\<open>Build\<close> over the declared types, and the seeding of \<^verbatim>\<open>resolved\<close>.\<close>

fun Build_all :: "Type option list \<Rightarrow> (string \<rightharpoonup> Type) \<Rightarrow> error + (string \<rightharpoonup> Type)" where
  "Build_all [] all = Inr all"
| "Build_all (t # ts) all =
     (case TypeInfo t of
        Inl e \<Rightarrow> Inl e
      | Inr (name, _, _) \<Rightarrow> Build_all ts (all(name := t)))"

fun Build_resolved :: "string list \<Rightarrow> (string \<rightharpoonup> bool) \<Rightarrow> (string \<rightharpoonup> bool)" where
  "Build_resolved [] resolved = resolved"
| "Build_resolved (bt # bts) resolved = Build_resolved bts (resolved(bt \<mapsto> True))"

fun Build_ordered :: "nat \<Rightarrow> Type option list \<Rightarrow> Type option list \<Rightarrow> (string \<rightharpoonup> bool) \<Rightarrow> (string \<rightharpoonup> Type)
      \<Rightarrow> (error + Type option list \<times> (string \<rightharpoonup> bool)) option" where
  "Build_ordered n [] ordered resolved all = Some (Inr (ordered, resolved))"
| "Build_ordered n (t # ts) ordered resolved all =
     (case TypeInfo t of
        Inl e \<Rightarrow> Some (Inl e)
      | Inr (name, super, _) \<Rightarrow>
          (case resolve n ordered resolved all name super of
             None \<Rightarrow> None
           | Some (Inl e) \<Rightarrow> Some (Inl e)
           | Some (Inr (ordered1, resolved1)) \<Rightarrow> Build_ordered n ts ordered1 resolved1 all))"

text \<open>
  \<^verbatim>\<open>SchemaBuilder.Build\<close>, finalize in the spec. It returns the builder's schema with its
  types replaced by the resolver's output.
\<close>

definition SchemaBuilder_Build :: "nat \<Rightarrow> SchemaBuilder \<Rightarrow> (error + Schema) option" where
  "SchemaBuilder_Build n sb =
     (let resolved = Build_resolved namesBaseType Map.empty in
      case Build_all (Schema.Types (SchemaBuilder.proto sb)) Map.empty of
        Inl e \<Rightarrow> Some (Inl e)
      | Inr all \<Rightarrow>
          (case Build_ordered n (Schema.Types (SchemaBuilder.proto sb)) [] resolved all of
             None \<Rightarrow> None
           | Some (Inl e) \<Rightarrow> Some (Inl e)
           | Some (Inr (ordered, _)) \<Rightarrow>
               Some (Inr ((SchemaBuilder.proto sb)\<lparr>Schema.Types := ordered\<rparr>))))"

section \<open>The type builders\<close>

text \<open>
  A builder method mutates its receiver and returns it; the model takes the receiver first
  and returns the updated builder. A terminal \<^verbatim>\<open>Build\<close> returns a pointer to a fresh \<^verbatim>\<open>Type\<close>,
  never nil: the model returns the \<open>Type\<close>. A method carries the name of its builder, as
  several builders have methods of the same name.
\<close>

record StringTypeBuilder =
  st :: StringTypeDef

definition NewStringTypeBuilder :: "string \<Rightarrow> StringTypeBuilder" where
  "NewStringTypeBuilder name =
     \<lparr>StringTypeBuilder.st =
        \<lparr>StringTypeDef.Type = ''String'', StringTypeDef.Name = name, StringTypeDef.Comment = [],
         StringTypeDef.Pattern = [], StringTypeDef.Values = None, StringTypeDef.MinSize = None,
         StringTypeDef.MaxSize = None\<rparr>\<rparr>"

definition StringTypeBuilder_Comment :: "StringTypeBuilder \<Rightarrow> string \<Rightarrow> StringTypeBuilder" where
  "StringTypeBuilder_Comment tb comment =
     tb\<lparr>StringTypeBuilder.st := (StringTypeBuilder.st tb)\<lparr>StringTypeDef.Comment := comment\<rparr>\<rparr>"

definition StringTypeBuilder_Pattern :: "StringTypeBuilder \<Rightarrow> string \<Rightarrow> StringTypeBuilder" where
  "StringTypeBuilder_Pattern tb pattern =
     tb\<lparr>StringTypeBuilder.st := (StringTypeBuilder.st tb)\<lparr>StringTypeDef.Pattern := pattern\<rparr>\<rparr>"

definition StringTypeBuilder_MaxSize :: "StringTypeBuilder \<Rightarrow> int32 \<Rightarrow> StringTypeBuilder" where
  "StringTypeBuilder_MaxSize tb maxsize =
     tb\<lparr>StringTypeBuilder.st := (StringTypeBuilder.st tb)\<lparr>StringTypeDef.MaxSize := Some maxsize\<rparr>\<rparr>"

definition StringTypeBuilder_MinSize :: "StringTypeBuilder \<Rightarrow> int32 \<Rightarrow> StringTypeBuilder" where
  "StringTypeBuilder_MinSize tb minsize =
     tb\<lparr>StringTypeBuilder.st := (StringTypeBuilder.st tb)\<lparr>StringTypeDef.MinSize := Some minsize\<rparr>\<rparr>"

definition StringTypeBuilder_Build :: "StringTypeBuilder \<Rightarrow> Type" where
  "StringTypeBuilder_Build tb =
     (if StringTypeDef.Pattern (StringTypeBuilder.st tb) = [] \<and>
         StringTypeDef.MaxSize (StringTypeBuilder.st tb) = None \<and>
         StringTypeDef.MinSize (StringTypeBuilder.st tb) = None \<and>
         StringTypeDef.Values (StringTypeBuilder.st tb) = None
      then TypeVariantAliasTypeDef
             \<lparr>AliasTypeDef.Type = StringTypeDef.Type (StringTypeBuilder.st tb),
              AliasTypeDef.Name = StringTypeDef.Name (StringTypeBuilder.st tb),
              AliasTypeDef.Comment = StringTypeDef.Comment (StringTypeBuilder.st tb)\<rparr>
      else TypeVariantStringTypeDef (StringTypeBuilder.st tb))"

record AliasTypeBuilder =
  proto :: AliasTypeDef

definition NewAliasTypeBuilder :: "string \<Rightarrow> string \<Rightarrow> AliasTypeBuilder" where
  "NewAliasTypeBuilder supertype name =
     \<lparr>AliasTypeBuilder.proto =
        \<lparr>AliasTypeDef.Type = supertype, AliasTypeDef.Name = name, AliasTypeDef.Comment = []\<rparr>\<rparr>"

definition AliasTypeBuilder_Build :: "AliasTypeBuilder \<Rightarrow> Type" where
  "AliasTypeBuilder_Build tb = TypeVariantAliasTypeDef (AliasTypeBuilder.proto tb)"

record StructTypeBuilder =
  proto :: StructTypeDef

definition NewStructTypeBuilder :: "string \<Rightarrow> string \<Rightarrow> StructTypeBuilder" where
  "NewStructTypeBuilder supertype name =
     \<lparr>StructTypeBuilder.proto =
        \<lparr>StructTypeDef.Type = supertype, StructTypeDef.Name = name, StructTypeDef.Comment = [],
         StructTypeDef.Fields = []\<rparr>\<rparr>"

definition StructTypeBuilder_Field ::
  "StructTypeBuilder \<Rightarrow> string \<Rightarrow> string \<Rightarrow> bool \<Rightarrow> dynamic \<Rightarrow> string \<Rightarrow> StructTypeBuilder" where
  "StructTypeBuilder_Field tb fname ftype optional def comment =
     (let f = \<lparr>StructFieldDef.Name = fname, StructFieldDef.Type = ftype,
                StructFieldDef.Optional = optional, StructFieldDef.Default = def,
                StructFieldDef.Comment = comment, StructFieldDef.Items = [],
                StructFieldDef.Keys = []\<rparr>
      in tb\<lparr>StructTypeBuilder.proto :=
              (StructTypeBuilder.proto tb)
                \<lparr>StructTypeDef.Fields := StructTypeDef.Fields (StructTypeBuilder.proto tb) @ [f]\<rparr>\<rparr>)"

definition StructTypeBuilder_MapField ::
  "StructTypeBuilder \<Rightarrow> string \<Rightarrow> string \<Rightarrow> string \<Rightarrow> bool \<Rightarrow> string \<Rightarrow> StructTypeBuilder" where
  "StructTypeBuilder_MapField tb fname fkeys fitems optional comment =
     (let f = \<lparr>StructFieldDef.Name = fname, StructFieldDef.Type = ''Map'',
                StructFieldDef.Optional = optional, StructFieldDef.Default = DynNil,
                StructFieldDef.Comment = comment, StructFieldDef.Items = fitems,
                StructFieldDef.Keys = fkeys\<rparr>
      in tb\<lparr>StructTypeBuilder.proto :=
              (StructTypeBuilder.proto tb)
                \<lparr>StructTypeDef.Fields := StructTypeDef.Fields (StructTypeBuilder.proto tb) @ [f]\<rparr>\<rparr>)"

definition StructTypeBuilder_ArrayField ::
  "StructTypeBuilder \<Rightarrow> string \<Rightarrow> string \<Rightarrow> bool \<Rightarrow> string \<Rightarrow> StructTypeBuilder" where
  "StructTypeBuilder_ArrayField tb fname fitems optional comment =
     (let f = \<lparr>StructFieldDef.Name = fname, StructFieldDef.Type = ''Array'',
                StructFieldDef.Optional = optional, StructFieldDef.Default = DynNil,
                StructFieldDef.Comment = comment, StructFieldDef.Items = fitems,
                StructFieldDef.Keys = []\<rparr>
      in tb\<lparr>StructTypeBuilder.proto :=
              (StructTypeBuilder.proto tb)
                \<lparr>StructTypeDef.Fields := StructTypeDef.Fields (StructTypeBuilder.proto tb) @ [f]\<rparr>\<rparr>)"

definition StructTypeBuilder_Build :: "StructTypeBuilder \<Rightarrow> Type" where
  "StructTypeBuilder_Build tb = TypeVariantStructTypeDef (StructTypeBuilder.proto tb)"

record ArrayTypeBuilder =
  proto :: ArrayTypeDef

definition NewArrayTypeBuilder :: "string \<Rightarrow> string \<Rightarrow> ArrayTypeBuilder" where
  "NewArrayTypeBuilder supertype name =
     \<lparr>ArrayTypeBuilder.proto =
        \<lparr>ArrayTypeDef.Type = supertype, ArrayTypeDef.Name = name, ArrayTypeDef.Comment = [],
         ArrayTypeDef.Items = []\<rparr>\<rparr>"

definition ArrayTypeBuilder_Items :: "ArrayTypeBuilder \<Rightarrow> string \<Rightarrow> ArrayTypeBuilder" where
  "ArrayTypeBuilder_Items tb items =
     tb\<lparr>ArrayTypeBuilder.proto := (ArrayTypeBuilder.proto tb)\<lparr>ArrayTypeDef.Items := items\<rparr>\<rparr>"

definition ArrayTypeBuilder_Build :: "ArrayTypeBuilder \<Rightarrow> Type" where
  "ArrayTypeBuilder_Build tb = TypeVariantArrayTypeDef (ArrayTypeBuilder.proto tb)"

record MapTypeBuilder =
  proto :: MapTypeDef

definition NewMapTypeBuilder :: "string \<Rightarrow> string \<Rightarrow> MapTypeBuilder" where
  "NewMapTypeBuilder supertype name =
     \<lparr>MapTypeBuilder.proto =
        \<lparr>MapTypeDef.Type = supertype, MapTypeDef.Name = name, MapTypeDef.Comment = [],
         MapTypeDef.Keys = [], MapTypeDef.Items = []\<rparr>\<rparr>"

definition MapTypeBuilder_Keys :: "MapTypeBuilder \<Rightarrow> string \<Rightarrow> MapTypeBuilder" where
  "MapTypeBuilder_Keys tb keys =
     tb\<lparr>MapTypeBuilder.proto := (MapTypeBuilder.proto tb)\<lparr>MapTypeDef.Keys := keys\<rparr>\<rparr>"

definition MapTypeBuilder_Items :: "MapTypeBuilder \<Rightarrow> string \<Rightarrow> MapTypeBuilder" where
  "MapTypeBuilder_Items tb items =
     tb\<lparr>MapTypeBuilder.proto := (MapTypeBuilder.proto tb)\<lparr>MapTypeDef.Items := items\<rparr>\<rparr>"

definition MapTypeBuilder_Build :: "MapTypeBuilder \<Rightarrow> Type" where
  "MapTypeBuilder_Build tb = TypeVariantMapTypeDef (MapTypeBuilder.proto tb)"

record UnionTypeBuilder =
  proto :: UnionTypeDef

definition NewUnionTypeBuilder :: "string \<Rightarrow> string \<Rightarrow> UnionTypeBuilder" where
  "NewUnionTypeBuilder supertype name =
     \<lparr>UnionTypeBuilder.proto =
        \<lparr>UnionTypeDef.Type = supertype, UnionTypeDef.Name = name, UnionTypeDef.Comment = [],
         UnionTypeDef.Variants = []\<rparr>\<rparr>"

definition UnionTypeBuilder_Variant :: "UnionTypeBuilder \<Rightarrow> string \<Rightarrow> UnionTypeBuilder" where
  "UnionTypeBuilder_Variant tb variant =
     tb\<lparr>UnionTypeBuilder.proto :=
          (UnionTypeBuilder.proto tb)
            \<lparr>UnionTypeDef.Variants := UnionTypeDef.Variants (UnionTypeBuilder.proto tb) @ [variant]\<rparr>\<rparr>"

definition UnionTypeBuilder_Build :: "UnionTypeBuilder \<Rightarrow> Type" where
  "UnionTypeBuilder_Build tb = TypeVariantUnionTypeDef (UnionTypeBuilder.proto tb)"

section \<open>The resource builder\<close>

record ResourceBuilder =
  proto :: Resource

definition NewResourceBuilder :: "string \<Rightarrow> string \<Rightarrow> string \<Rightarrow> ResourceBuilder" where
  "NewResourceBuilder typename method path =
     \<lparr>ResourceBuilder.proto =
        \<lparr>Resource.Type = typename, Resource.Method = method, Resource.Path = path,
         Resource.Comment = [], Resource.Inputs = [], Resource.Outputs = [],
         Resource.Auth = None, Resource.Expected = ''OK'', Resource.Exceptions = None,
         Resource.Name = []\<rparr>\<rparr>"

definition ResourceBuilder_Comment :: "ResourceBuilder \<Rightarrow> string \<Rightarrow> ResourceBuilder" where
  "ResourceBuilder_Comment rb comment =
     rb\<lparr>ResourceBuilder.proto := (ResourceBuilder.proto rb)\<lparr>Resource.Comment := comment\<rparr>\<rparr>"

definition ResourceBuilder_Expected :: "ResourceBuilder \<Rightarrow> string \<Rightarrow> ResourceBuilder" where
  "ResourceBuilder_Expected rb symb =
     rb\<lparr>ResourceBuilder.proto := (ResourceBuilder.proto rb)\<lparr>Resource.Expected := symb\<rparr>\<rparr>"

definition ResourceBuilder_Exception ::
  "ResourceBuilder \<Rightarrow> string \<Rightarrow> string \<Rightarrow> string \<Rightarrow> ResourceBuilder" where
  "ResourceBuilder_Exception rb symb typename comment =
     (let e = \<lparr>ExceptionDef.Type = typename, ExceptionDef.Comment = comment\<rparr>;
          exceptions = (case Resource.Exceptions (ResourceBuilder.proto rb) of
                          None \<Rightarrow> Map.empty
                        | Some m \<Rightarrow> m)
      in rb\<lparr>ResourceBuilder.proto :=
              (ResourceBuilder.proto rb)\<lparr>Resource.Exceptions := Some (exceptions(symb \<mapsto> e))\<rparr>\<rparr>)"

definition ResourceBuilder_Name :: "ResourceBuilder \<Rightarrow> string \<Rightarrow> ResourceBuilder" where
  "ResourceBuilder_Name rb symb =
     rb\<lparr>ResourceBuilder.proto := (ResourceBuilder.proto rb)\<lparr>Resource.Name := symb\<rparr>\<rparr>"

definition ResourceBuilder_Build :: "ResourceBuilder \<Rightarrow> Resource" where
  "ResourceBuilder_Build rb = ResourceBuilder.proto rb"

text \<open>
  Reading the exception of an outcome symbol out of a finished resource. Reading a Go map
  gives "not present" for a missing key, and for every key of a nil map.
\<close>

definition Exceptions_lookup :: "Resource \<Rightarrow> string \<Rightarrow> ExceptionDef option" where
  "Exceptions_lookup r symb =
     (case Resource.Exceptions r of None \<Rightarrow> None | Some m \<Rightarrow> m symb)"

section \<open>Vocabulary of the statements\<close>

text \<open>
  The name and the supertype of a descriptor, as \<^verbatim>\<open>TypeInfo\<close> returns them for a non-nil pointer.
\<close>

fun nameOf :: "Type \<Rightarrow> TypeName" where
  "nameOf (TypeVariantAliasTypeDef d) = AliasTypeDef.Name d"
| "nameOf (TypeVariantStringTypeDef d) = StringTypeDef.Name d"
| "nameOf (TypeVariantNumberTypeDef d) = NumberTypeDef.Name d"
| "nameOf (TypeVariantStructTypeDef d) = StructTypeDef.Name d"
| "nameOf (TypeVariantArrayTypeDef d) = ArrayTypeDef.Name d"
| "nameOf (TypeVariantMapTypeDef d) = MapTypeDef.Name d"
| "nameOf (TypeVariantEnumTypeDef d) = EnumTypeDef.Name d"
| "nameOf (TypeVariantUnionTypeDef d) = UnionTypeDef.Name d"

fun superOf :: "Type \<Rightarrow> TypeRef" where
  "superOf (TypeVariantAliasTypeDef d) = AliasTypeDef.Type d"
| "superOf (TypeVariantStringTypeDef d) = StringTypeDef.Type d"
| "superOf (TypeVariantNumberTypeDef d) = NumberTypeDef.Type d"
| "superOf (TypeVariantStructTypeDef d) = StructTypeDef.Type d"
| "superOf (TypeVariantArrayTypeDef d) = ArrayTypeDef.Type d"
| "superOf (TypeVariantMapTypeDef d) = MapTypeDef.Type d"
| "superOf (TypeVariantEnumTypeDef d) = EnumTypeDef.Type d"
| "superOf (TypeVariantUnionTypeDef d) = UnionTypeDef.Type d"

text \<open>The names of the types of a sequence, in order; a nil pointer has none.\<close>

fun typeNames :: "Type option list \<Rightarrow> TypeName list" where
  "typeNames [] = []"
| "typeNames (None # ts) = typeNames ts"
| "typeNames (Some t # ts) = nameOf t # typeNames ts"

text \<open>
  The references \<^verbatim>\<open>resolve\<close> follows from a descriptor \<open>t\<close> when it is called with the
  supertype of \<open>t\<close>: none when the supertype is one of the eleven primitive names of its
  first \<^verbatim>\<open>case\<close>; the item type for \<^verbatim>\<open>Array\<close>; the item type, then the key type, for
  \<^verbatim>\<open>Map\<close>; the field types, in order, for \<^verbatim>\<open>Struct\<close>; the supertype itself otherwise.
  \<open>readable t\<close> says that the descriptor the \<^verbatim>\<open>Array\<close>, \<^verbatim>\<open>Map\<close> or \<^verbatim>\<open>Struct\<close> case reads
  through is there, so that the case does not panic. Lemma \<open>resolve_step\<close> below proves
  that this is what \<^verbatim>\<open>resolve\<close> does.
\<close>

definition noDependencies :: "string \<Rightarrow> bool" where
  "noDependencies super =
     (super \<in> set [''String'', ''Bytes'', ''Bool'', ''Int8'', ''Int16'', ''Int32'',
                    ''Int64'', ''Float32'', ''Float64'', ''UUID'', ''Timestamp''])"

definition dependencies :: "Type \<Rightarrow> TypeRef list" where
  "dependencies t =
     (if noDependencies (superOf t) then []
      else if superOf t = ''Array'' then
        (case t of TypeVariantArrayTypeDef d \<Rightarrow> [ArrayTypeDef.Items d] | _ \<Rightarrow> [])
      else if superOf t = ''Map'' then
        (case t of TypeVariantMapTypeDef d \<Rightarrow> [MapTypeDef.Items d, MapTypeDef.Keys d] | _ \<Rightarrow> [])
      else if superOf t = ''Struct'' then
        (case t of TypeVariantStructTypeDef d \<Rightarrow> map StructFieldDef.Type (StructTypeDef.Fields d) | _ \<Rightarrow> [])
      else [superOf t])"

definition readable :: "Type \<Rightarrow> bool" where
  "readable t =
     (if noDependencies (superOf t) then True
      else if superOf t = ''Array'' then (case t of TypeVariantArrayTypeDef d \<Rightarrow> True | _ \<Rightarrow> False)
      else if superOf t = ''Map'' then (case t of TypeVariantMapTypeDef d \<Rightarrow> True | _ \<Rightarrow> False)
      else if superOf t = ''Struct'' then (case t of TypeVariantStructTypeDef d \<Rightarrow> True | _ \<Rightarrow> False)
      else True)"

text \<open>
  The field types of a struct descriptor, the item types of its fields (set by an inline map
  or array field) and the variants of a union descriptor, whatever the supertype.
\<close>

definition fieldTypes :: "Type \<Rightarrow> TypeRef list" where
  "fieldTypes t =
     (case t of
        TypeVariantStructTypeDef d \<Rightarrow> map StructFieldDef.Type (StructTypeDef.Fields d)
      | _ \<Rightarrow> [])"

definition fieldItems :: "Type \<Rightarrow> TypeRef list" where
  "fieldItems t =
     (case t of
        TypeVariantStructTypeDef d \<Rightarrow> map StructFieldDef.Items (StructTypeDef.Fields d)
      | _ \<Rightarrow> [])"

definition unionVariants :: "Type \<Rightarrow> TypeRef list" where
  "unionVariants t = (case t of TypeVariantUnionTypeDef d \<Rightarrow> UnionTypeDef.Variants d | _ \<Rightarrow> [])"

text \<open>A declared type whose own name is a Base Type name.\<close>

definition hasBaseTypeName :: "Type option \<Rightarrow> bool" where
  "hasBaseTypeName x = (case x of None \<Rightarrow> False | Some t \<Rightarrow> isBaseType (nameOf t))"

text \<open>
  The outcome of \<^verbatim>\<open>Build\<close> with the schema reduced to its type sequence, and a builder with
  a list of types appended in order.
\<close>

definition Build_Types :: "nat \<Rightarrow> SchemaBuilder \<Rightarrow> (error + Type option list) option" where
  "Build_Types n sb = map_option (map_sum id Schema.Types) (SchemaBuilder_Build n sb)"

fun AddTypes :: "SchemaBuilder \<Rightarrow> Type list \<Rightarrow> SchemaBuilder" where
  "AddTypes sb [] = sb"
| "AddTypes sb (t # ts) = AddTypes (SchemaBuilder_AddType sb (Some t)) ts"

text \<open>
  A string descriptor with a pattern, a size bound or enumerated values: the negation of the
  test in \<^verbatim>\<open>StringTypeBuilder.Build\<close>.
\<close>

definition constrained :: "StringTypeDef \<Rightarrow> bool" where
  "constrained d =
     (StringTypeDef.Pattern d \<noteq> [] \<or> StringTypeDef.MaxSize d \<noteq> None \<or>
      StringTypeDef.MinSize d \<noteq> None \<or> StringTypeDef.Values d \<noteq> None)"

text \<open>A sequence of \<^verbatim>\<open>Exception\<close> calls on a resource builder, made in order.\<close>

fun Exception_calls :: "ResourceBuilder \<Rightarrow> (string \<times> string \<times> string) list \<Rightarrow> ResourceBuilder" where
  "Exception_calls rb [] = rb"
| "Exception_calls rb ((symb, typename, comment) # calls) =
     Exception_calls (ResourceBuilder_Exception rb symb typename comment) calls"

section \<open>Example schemas\<close>

text \<open>
  The types of the spec's examples, made with the builders: \<open>Point\<close> and \<open>Line\<close> (Example 1),
  \<open>IntList\<close> (Example 2), \<open>Self\<close> with a field of the undeclared type \<open>Missing\<close> (Example 4).
  Further: a struct \<open>Derived\<close> whose supertype is the declared struct \<open>Base\<close> and which has a
  field of the declared type \<open>Other\<close>; a struct \<open>Index\<close> with an inline map field from
  \<open>String\<close> to the undeclared type \<open>Missing\<close>; a union \<open>Shape\<close> with the variant \<open>Point\<close>;
  two aliases \<open>A\<close> and \<open>B\<close> of each other; and a string type that is named \<open>UUID\<close>, as a
  Base Type is.
\<close>

definition example_Point :: Type where
  "example_Point =
     StructTypeBuilder_Build
       (StructTypeBuilder_Field
          (StructTypeBuilder_Field (NewStructTypeBuilder ''Struct'' ''Point'')
             ''x'' ''Int32'' False DynNil [])
          ''y'' ''Int32'' False DynNil [])"

definition example_Line :: Type where
  "example_Line =
     StructTypeBuilder_Build
       (StructTypeBuilder_Field
          (StructTypeBuilder_Field (NewStructTypeBuilder ''Struct'' ''Line'')
             ''from'' ''Point'' False DynNil [])
          ''to'' ''Point'' False DynNil [])"

definition example_IntList :: Type where
  "example_IntList =
     ArrayTypeBuilder_Build (ArrayTypeBuilder_Items (NewArrayTypeBuilder ''Array'' ''IntList'') ''Int32'')"

definition example_Self :: Type where
  "example_Self =
     StructTypeBuilder_Build
       (StructTypeBuilder_Field (NewStructTypeBuilder ''Struct'' ''Self'')
          ''other'' ''Missing'' False DynNil [])"

definition example_Base :: Type where
  "example_Base = StructTypeBuilder_Build (NewStructTypeBuilder ''Struct'' ''Base'')"

definition example_Other :: Type where
  "example_Other = StructTypeBuilder_Build (NewStructTypeBuilder ''Struct'' ''Other'')"

definition example_Derived :: Type where
  "example_Derived =
     StructTypeBuilder_Build
       (StructTypeBuilder_Field (NewStructTypeBuilder ''Base'' ''Derived'')
          ''other'' ''Other'' False DynNil [])"

definition example_Index :: Type where
  "example_Index =
     StructTypeBuilder_Build
       (StructTypeBuilder_MapField (NewStructTypeBuilder ''Struct'' ''Index'')
          ''entries'' ''String'' ''Missing'' False [])"

definition example_Shape :: Type where
  "example_Shape =
     UnionTypeBuilder_Build (UnionTypeBuilder_Variant (NewUnionTypeBuilder ''Union'' ''Shape'') ''Point'')"

definition example_A :: Type where
  "example_A = AliasTypeBuilder_Build (NewAliasTypeBuilder ''B'' ''A'')"

definition example_B :: Type where
  "example_B = AliasTypeBuilder_Build (NewAliasTypeBuilder ''A'' ''B'')"

definition example_UUID :: Type where
  "example_UUID =
     StringTypeBuilder_Build (StringTypeBuilder_Pattern (NewStringTypeBuilder ''UUID'') ''[0-9a-f-]*'')"

section \<open>The invariant of the resolver\<close>

text \<open>
  \<open>resolveRefs\<close> is \<^verbatim>\<open>resolveRef\<close> over a list of references, as \<^verbatim>\<open>resolve\<close> calls it once,
  twice or in a loop.
\<close>

fun resolveRefs :: "nat \<Rightarrow> Type option list \<Rightarrow> (string \<rightharpoonup> bool) \<Rightarrow> (string \<rightharpoonup> Type) \<Rightarrow> string list
      \<Rightarrow> (error + Type option list \<times> (string \<rightharpoonup> bool)) option" where
  "resolveRefs n ordered resolved all [] = Some (Inr (ordered, resolved))"
| "resolveRefs n ordered resolved all (ref # refs) =
     (case resolveRef n ordered resolved all ref of
        None \<Rightarrow> None
      | Some (Inl e) \<Rightarrow> Some (Inl e)
      | Some (Inr (ordered1, resolved1)) \<Rightarrow> resolveRefs n ordered1 resolved1 all refs)"

text \<open>
  \<open>all_wf\<close>: the map \<^verbatim>\<open>all\<close> holds every descriptor under its own name, as \<^verbatim>\<open>Build\<close> fills it.
  \<open>resolver_inv\<close>: every emitted pointer is non-nil, is the descriptor \<^verbatim>\<open>all\<close> has under its
  name, and has a name that is no Base Type name; \<^verbatim>\<open>resolved\<close> holds Base Type names and the
  emitted names, and all emitted names; the emitted names are distinct; and every followed
  reference of an emitted type is a Base Type name or the name of a type emitted before it.
\<close>

definition all_wf :: "(string \<rightharpoonup> Type) \<Rightarrow> bool" where
  "all_wf all = (\<forall>n t. all n = Some t \<longrightarrow> nameOf t = n)"

definition resolver_inv :: "(string \<rightharpoonup> Type) \<Rightarrow> Type option list \<Rightarrow> (string \<rightharpoonup> bool) \<Rightarrow> bool" where
  "resolver_inv all ordered resolved =
     ((\<forall>x\<in>set ordered. \<exists>t. x = Some t \<and> all (nameOf t) = Some t \<and> \<not> isBaseType (nameOf t)) \<and>
      dom resolved \<subseteq> {n. isBaseType n} \<union> set (typeNames ordered) \<and>
      set (typeNames ordered) \<subseteq> dom resolved \<and>
      distinct (typeNames ordered) \<and>
      (\<forall>i<length ordered. \<forall>t. ordered ! i = Some t \<longrightarrow>
         (\<forall>r\<in>set (dependencies t). isBaseType r \<or> r \<in> set (typeNames (take i ordered)))))"

text \<open>
  \<open>blocked all S x\<close>: every name of \<open>S\<close> is a declared, non-Base name whose descriptor follows
  a reference into \<open>S\<close> or to \<open>x\<close>. While \<open>x\<close> is being resolved, no name of such a set can
  become resolved: the names on the call stack form such a set. \<open>closed_cycle all S\<close>: every
  name of \<open>S\<close> follows a reference into \<open>S\<close>.
\<close>

definition blocked :: "(string \<rightharpoonup> Type) \<Rightarrow> string set \<Rightarrow> string \<Rightarrow> bool" where
  "blocked all S x =
     (\<forall>s\<in>S. \<not> isBaseType s \<and> (\<exists>t. all s = Some t \<and> (\<exists>r\<in>set (dependencies t). r \<in> S \<or> r = x)))"

definition closed_cycle :: "(string \<rightharpoonup> Type) \<Rightarrow> string set \<Rightarrow> bool" where
  "closed_cycle all S =
     (\<forall>s\<in>S. \<not> isBaseType s \<and> (\<exists>t. all s = Some t \<and> (\<exists>r\<in>set (dependencies t). r \<in> S)))"

text \<open>What a returning call establishes, for \<^verbatim>\<open>resolve\<close>, \<^verbatim>\<open>resolveRef\<close> and a list of references.\<close>

definition post :: "(string \<rightharpoonup> Type) \<Rightarrow> string set \<Rightarrow> Type option list \<Rightarrow> (string \<rightharpoonup> bool) \<Rightarrow>
    Type option list \<Rightarrow> (string \<rightharpoonup> bool) \<Rightarrow> bool" where
  "post all S ordered resolved ordered' resolved' =
     (resolver_inv all ordered' resolved' \<and> (\<exists>ext. ordered' = ordered @ ext) \<and>
      dom resolved \<subseteq> dom resolved' \<and> S \<inter> dom resolved' = {})"

definition resolve_ok :: "(string \<rightharpoonup> Type) \<Rightarrow> nat \<Rightarrow> bool" where
  "resolve_ok all n =
     (\<forall>ordered resolved name t S ordered' resolved'.
        resolver_inv all ordered resolved \<longrightarrow> all name = Some t \<longrightarrow> S \<inter> dom resolved = {} \<longrightarrow>
        blocked all S name \<longrightarrow>
        resolve n ordered resolved all name (superOf t) = Some (Inr (ordered', resolved')) \<longrightarrow>
        post all S ordered resolved ordered' resolved' \<and>
        (isBaseType name \<or> name \<in> dom resolved') \<and> name \<notin> S)"

definition resolveRef_ok :: "(string \<rightharpoonup> Type) \<Rightarrow> nat \<Rightarrow> bool" where
  "resolveRef_ok all n =
     (\<forall>ordered resolved ref S ordered' resolved'.
        resolver_inv all ordered resolved \<longrightarrow> S \<inter> dom resolved = {} \<longrightarrow> blocked all S ref \<longrightarrow>
        resolveRef n ordered resolved all ref = Some (Inr (ordered', resolved')) \<longrightarrow>
        post all S ordered resolved ordered' resolved' \<and>
        (isBaseType ref \<or> ref \<in> dom resolved') \<and> ref \<notin> S)"

definition resolveRefs_ok :: "(string \<rightharpoonup> Type) \<Rightarrow> nat \<Rightarrow> bool" where
  "resolveRefs_ok all n =
     (\<forall>refs ordered resolved S ordered' resolved'.
        resolver_inv all ordered resolved \<longrightarrow> S \<inter> dom resolved = {} \<longrightarrow> (\<forall>r\<in>set refs. blocked all S r) \<longrightarrow>
        resolveRefs n ordered resolved all refs = Some (Inr (ordered', resolved')) \<longrightarrow>
        post all S ordered resolved ordered' resolved' \<and>
        (\<forall>r\<in>set refs. isBaseType r \<or> r \<in> dom resolved') \<and> set refs \<inter> S = {})"

text \<open>
  \<open>no_base_names\<close>: no emitted type has a Base Type name. \<open>agree\<close>: two maps hold the same
  descriptors under every name that is no Base Type name.
\<close>

definition no_base_names :: "Type option list \<Rightarrow> bool" where
  "no_base_names ordered = (\<forall>x\<in>set ordered. \<not> hasBaseTypeName x)"

definition agree :: "(string \<rightharpoonup> Type) \<Rightarrow> (string \<rightharpoonup> Type) \<Rightarrow> bool" where
  "agree all all' = (\<forall>k. \<not> isBaseType k \<longrightarrow> all k = all' k)"

section \<open>Lemmas\<close>

subsection \<open>One call of the resolver\<close>

lemma TypeInfo_Inr: "TypeInfo x = Inr (n, s, c) \<Longrightarrow> \<exists>t. x = Some t \<and> nameOf t = n \<and> superOf t = s"
  by (cases x rule: TypeInfo.cases) auto

lemma TypeInfo_Inl: "TypeInfo x = Inl e \<Longrightarrow> x = None"
  by (cases x rule: TypeInfo.cases) auto

lemma resolveFields_resolveRefs:
  "resolveFields n ordered resolved all fs = resolveRefs n ordered resolved all (map StructFieldDef.Type fs)"
  by (induction fs arbitrary: ordered resolved) (auto split: option.splits sum.splits)

declare resolve.simps [simp del] resolveRef.simps [simp del]

lemma resolve_done:
  "resolved name \<noteq> None \<or> isBaseType name \<Longrightarrow>
   resolve (Suc n) ordered resolved all name super = Some (Inr (ordered, resolved))"
  by (simp add: resolve.simps)

lemma resolve_step:
  assumes "all name = Some t" "resolved name = None" "\<not> isBaseType name"
  shows "resolve (Suc n) ordered resolved all name (superOf t) =
     (if \<not> readable t then Some (Inl NilPointerDereference)
      else case resolveRefs n ordered resolved all (dependencies t) of
             None \<Rightarrow> None
           | Some (Inl e) \<Rightarrow> Some (Inl e)
           | Some (Inr (ordered', resolved')) \<Rightarrow>
               Some (Inr (ordered' @ [Some t], resolved'(name \<mapsto> True))))"
proof -
  consider (leaf) "noDependencies (superOf t)"
    | (array) "\<not> noDependencies (superOf t)" "superOf t = ''Array''"
    | (map) "\<not> noDependencies (superOf t)" "superOf t = ''Map''"
    | (struct) "\<not> noDependencies (superOf t)" "superOf t = ''Struct''"
    | (other) "\<not> noDependencies (superOf t)" "superOf t \<noteq> ''Array''" "superOf t \<noteq> ''Map''" "superOf t \<noteq> ''Struct''"
    by blast
  then show ?thesis
  proof cases
    case leaf
    with assms show ?thesis
      by (simp add: resolve.simps readable_def dependencies_def noDependencies_def)
  next
    case array
    with assms show ?thesis
      by (cases t) (simp_all add: resolve.simps readable_def dependencies_def noDependencies_def
          split: option.splits sum.splits)
  next
    case map
    with assms show ?thesis
      by (cases t) (simp_all add: resolve.simps readable_def dependencies_def noDependencies_def
          split: option.splits sum.splits)
  next
    case struct
    with assms show ?thesis
      by (cases t) (simp_all add: resolve.simps readable_def dependencies_def noDependencies_def
          resolveFields_resolveRefs split: option.splits sum.splits)
  next
    case other
    with assms show ?thesis
      by (simp add: resolve.simps readable_def dependencies_def noDependencies_def
          split: option.splits sum.splits)
  qed
qed

lemma resolve_Suc_cases:
  assumes "resolve (Suc n) ordered resolved all name super = Some (Inr (ordered', resolved'))"
  obtains
    (already) "resolved name \<noteq> None \<or> isBaseType name" "ordered' = ordered" "resolved' = resolved"
  | (leaf) "\<not> isBaseType name" "ordered' = ordered @ [all name]"
  | (array) d :: ArrayTypeDef and o1 r1 where "\<not> isBaseType name" "ordered' = o1 @ [all name]"
      "resolveRef n ordered resolved all (ArrayTypeDef.Items d) = Some (Inr (o1, r1))"
  | (mapping) d :: MapTypeDef and o1 r1 o2 r2 where "\<not> isBaseType name" "ordered' = o2 @ [all name]"
      "resolveRef n ordered resolved all (MapTypeDef.Items d) = Some (Inr (o1, r1))"
      "resolveRef n o1 r1 all (MapTypeDef.Keys d) = Some (Inr (o2, r2))"
  | (struct) d :: StructTypeDef and o1 r1 where "\<not> isBaseType name" "ordered' = o1 @ [all name]"
      "resolveFields n ordered resolved all (StructTypeDef.Fields d) = Some (Inr (o1, r1))"
  | (other) o1 r1 where "\<not> isBaseType name" "ordered' = o1 @ [all name]"
      "resolveRef n ordered resolved all super = Some (Inr (o1, r1))"
  using assms unfolding resolve.simps Let_def
  by (auto split: if_splits option.splits sum.splits)

lemma not_returned:
  fixes r :: "(error + 'a) option"
  assumes "\<And>s. r \<noteq> Some (Inr s)"
  shows "r = None \<or> r = Some (Inl NilPointerDereference)"
proof (cases r)
  case None
  then show ?thesis by simp
next
  case (Some a)
  show ?thesis
  proof (cases a)
    case (Inl e)
    with Some show ?thesis by (cases e) simp
  next
    case (Inr s)
    with Some assms show ?thesis by simp
  qed
qed

subsection \<open>The invariant is kept\<close>

lemma typeNames_append: "typeNames (xs @ ys) = typeNames xs @ typeNames ys"
  by (induction xs rule: typeNames.induct) auto

lemma typeNames_set: "set (typeNames xs) = {nameOf t |t. Some t \<in> set xs}"
  by (induction xs rule: typeNames.induct) auto

lemma typeNames_no_nil: "None \<notin> set xs \<Longrightarrow> typeNames xs = map (\<lambda>x. nameOf (the x)) xs"
  by (induction xs rule: typeNames.induct) auto

lemma typeNames_take_mem:
  "r \<in> set (typeNames (take i xs)) \<Longrightarrow> \<exists>j<i. j < length xs \<and> (\<exists>u. xs ! j = Some u \<and> nameOf u = r)"
proof -
  assume "r \<in> set (typeNames (take i xs))"
  then obtain u where "Some u \<in> set (take i xs)" "nameOf u = r"
    by (auto simp: typeNames_set)
  then obtain j where "j < length (take i xs)" "take i xs ! j = Some u"
    by (auto simp: in_set_conv_nth)
  with \<open>nameOf u = r\<close> show ?thesis by (intro exI [of _ j]) auto
qed

lemma post_refl: "resolver_inv all ordered resolved \<Longrightarrow> S \<inter> dom resolved = {} \<Longrightarrow> post all S ordered resolved ordered resolved"
  by (simp add: post_def)

lemma post_trans:
  "post all S o1 r1 o2 r2 \<Longrightarrow> post all S o2 r2 o3 r3 \<Longrightarrow> post all S o1 r1 o3 r3"
  unfolding post_def by (metis append_assoc order_trans)

lemma inv_snoc:
  assumes "resolver_inv all ordered resolved" "all name = Some t" "nameOf t = name" "\<not> isBaseType name"
    "name \<notin> dom resolved" "\<forall>d\<in>set (dependencies t). isBaseType d \<or> d \<in> dom resolved"
  shows "resolver_inv all (ordered @ [Some t]) (resolved(name \<mapsto> True))"
proof -
  have names: "set (typeNames ordered) \<subseteq> dom resolved" "dom resolved \<subseteq> {n. isBaseType n} \<union> set (typeNames ordered)"
    using assms(1) by (auto simp: resolver_inv_def)
  have fresh: "name \<notin> set (typeNames ordered)"
    using names assms(5) by auto
  have deps: "\<forall>i<length (ordered @ [Some t]). \<forall>u. (ordered @ [Some t]) ! i = Some u \<longrightarrow>
         (\<forall>r\<in>set (dependencies u). isBaseType r \<or> r \<in> set (typeNames (take i (ordered @ [Some t]))))"
  proof (intro allI impI)
    fix i u
    assume i: "i < length (ordered @ [Some t])" and u: "(ordered @ [Some t]) ! i = Some u"
    show "\<forall>r\<in>set (dependencies u). isBaseType r \<or> r \<in> set (typeNames (take i (ordered @ [Some t])))"
    proof (cases "i < length ordered")
      case True
      with u have "ordered ! i = Some u" by (simp add: nth_append)
      with assms(1) True have "\<forall>r\<in>set (dependencies u). isBaseType r \<or> r \<in> set (typeNames (take i ordered))"
        by (simp add: resolver_inv_def)
      with True show ?thesis by simp
    next
      case False
      with i have eq: "i = length ordered" by simp
      with u have "u = t" by simp
      with eq assms(6) names show ?thesis by auto
    qed
  qed
  show ?thesis
    unfolding resolver_inv_def
  proof (intro conjI)
    show "\<forall>x\<in>set (ordered @ [Some t]). \<exists>u. x = Some u \<and> all (nameOf u) = Some u \<and> \<not> isBaseType (nameOf u)"
      using assms by (auto simp: resolver_inv_def)
    show "dom (resolved(name \<mapsto> True)) \<subseteq> {n. isBaseType n} \<union> set (typeNames (ordered @ [Some t]))"
      using names assms(3) by (auto simp: typeNames_append)
    show "set (typeNames (ordered @ [Some t])) \<subseteq> dom (resolved(name \<mapsto> True))"
      using names assms(3) by (auto simp: typeNames_append)
    show "distinct (typeNames (ordered @ [Some t]))"
      using assms(1,3) fresh by (auto simp: resolver_inv_def typeNames_append)
    show "\<forall>i<length (ordered @ [Some t]). \<forall>u. (ordered @ [Some t]) ! i = Some u \<longrightarrow>
         (\<forall>r\<in>set (dependencies u). isBaseType r \<or> r \<in> set (typeNames (take i (ordered @ [Some t]))))"
      by (rule deps)
  qed
qed

lemma resolveRef_ok_of_resolve:
  assumes wf: "all_wf all" and ok: "resolve_ok all n"
  shows "resolveRef_ok all n"
  unfolding resolveRef_ok_def
proof (intro allI impI)
  fix ordered resolved ref S ordered' resolved'
  assume inv: "resolver_inv all ordered resolved" and S: "S \<inter> dom resolved = {}" and bl: "blocked all S ref"
    and run: "resolveRef n ordered resolved all ref = Some (Inr (ordered', resolved'))"
  show "post all S ordered resolved ordered' resolved' \<and> (isBaseType ref \<or> ref \<in> dom resolved') \<and> ref \<notin> S"
  proof (cases "isBaseType ref")
    case True
    with run have "ordered' = ordered" "resolved' = resolved" by (simp_all add: resolveRef.simps)
    moreover from True bl have "ref \<notin> S" by (auto simp: blocked_def)
    ultimately show ?thesis using inv S True by (simp add: post_refl)
  next
    case False
    with run obtain nm super c where ti: "TypeInfo (all ref) = Inr (nm, super, c)"
      and r: "resolve n ordered resolved all ref super = Some (Inr (ordered', resolved'))"
      by (auto simp: resolveRef.simps split: sum.splits)
    from ti obtain t where t: "all ref = Some t" "superOf t = super"
      by (auto dest: TypeInfo_Inr)
    with ok inv S bl r show ?thesis
      unfolding resolve_ok_def by blast
  qed
qed

lemma resolveRefs_ok_of_resolveRef:
  assumes ok: "resolveRef_ok all n"
  shows "resolveRefs_ok all n"
  unfolding resolveRefs_ok_def
proof (intro allI)
  fix refs
  show "\<And>ordered resolved S ordered' resolved'.
        resolver_inv all ordered resolved \<longrightarrow> S \<inter> dom resolved = {} \<longrightarrow> (\<forall>r\<in>set refs. blocked all S r) \<longrightarrow>
        resolveRefs n ordered resolved all refs = Some (Inr (ordered', resolved')) \<longrightarrow>
        post all S ordered resolved ordered' resolved' \<and>
        (\<forall>r\<in>set refs. isBaseType r \<or> r \<in> dom resolved') \<and> set refs \<inter> S = {}"
  proof (induction refs)
    case Nil
    show ?case by (auto simp: post_refl)
  next
    case (Cons ref refs)
    show ?case
    proof (intro impI)
      assume inv: "resolver_inv all ordered resolved" and S: "S \<inter> dom resolved = {}"
        and bl: "\<forall>r\<in>set (ref # refs). blocked all S r"
        and run: "resolveRefs n ordered resolved all (ref # refs) = Some (Inr (ordered', resolved'))"
      from run obtain o1 r1 where
        first: "resolveRef n ordered resolved all ref = Some (Inr (o1, r1))" and
        rest: "resolveRefs n o1 r1 all refs = Some (Inr (ordered', resolved'))"
        by (auto split: option.splits sum.splits)
      from ok inv S bl first have p1: "post all S ordered resolved o1 r1"
        and d1: "isBaseType ref \<or> ref \<in> dom r1" and n1: "ref \<notin> S"
        unfolding resolveRef_ok_def by (meson list.set_intros(1))+
      from p1 have inv1: "resolver_inv all o1 r1" and S1: "S \<inter> dom r1 = {}" by (auto simp: post_def)
      from Cons.IH [of o1 r1 S ordered' resolved'] inv1 S1 bl rest
      have p2: "post all S o1 r1 ordered' resolved'"
        and d2: "\<forall>r\<in>set refs. isBaseType r \<or> r \<in> dom resolved'" and n2: "set refs \<inter> S = {}"
        by auto
      from p2 have "dom r1 \<subseteq> dom resolved'" by (simp add: post_def)
      with d1 d2 n1 n2 post_trans [OF p1 p2]
      show "post all S ordered resolved ordered' resolved' \<and>
        (\<forall>r\<in>set (ref # refs). isBaseType r \<or> r \<in> dom resolved') \<and> set (ref # refs) \<inter> S = {}"
        by auto
    qed
  qed
qed

lemma resolve_ok_Suc:
  assumes wf: "all_wf all" and ok: "resolveRefs_ok all n"
  shows "resolve_ok all (Suc n)"
  unfolding resolve_ok_def
proof (intro allI impI)
  fix ordered resolved name t S ordered' resolved'
  assume inv: "resolver_inv all ordered resolved" and t: "all name = Some t"
    and S: "S \<inter> dom resolved = {}" and bl: "blocked all S name"
    and run: "resolve (Suc n) ordered resolved all name (superOf t) = Some (Inr (ordered', resolved'))"
  show "post all S ordered resolved ordered' resolved' \<and> (isBaseType name \<or> name \<in> dom resolved') \<and> name \<notin> S"
  proof (cases "resolved name \<noteq> None \<or> isBaseType name")
    case True
    with run have same: "ordered' = ordered" "resolved' = resolved"
      by (simp_all add: resolve_done)
    from True S bl have "name \<notin> S" by (auto simp: blocked_def)
    with same True inv S show ?thesis by (auto simp: post_refl)
  next
    case False
    then have unres: "resolved name = None" and nb: "\<not> isBaseType name" by auto
    note step = resolve_step [of all name t resolved n ordered, OF t unres nb]
    from run obtain o1 r1 where
      deps: "resolveRefs n ordered resolved all (dependencies t) = Some (Inr (o1, r1))" and
      out: "ordered' = o1 @ [Some t]" "resolved' = r1(name \<mapsto> True)"
      by (auto simp: step split: if_splits option.splits sum.splits)
    let ?S = "insert name S"
    have S': "?S \<inter> dom resolved = {}" using S unres by auto
    have bl': "\<forall>r\<in>set (dependencies t). blocked all ?S r"
      using bl t nb unfolding blocked_def by blast
    from ok inv S' bl' deps have p: "post all ?S ordered resolved o1 r1"
      and d: "\<forall>r\<in>set (dependencies t). isBaseType r \<or> r \<in> dom r1"
      and n: "set (dependencies t) \<inter> ?S = {}"
      unfolding resolveRefs_ok_def by blast+
    from p have inv1: "resolver_inv all o1 r1" and ext: "\<exists>ext. o1 = ordered @ ext"
      and mono: "dom resolved \<subseteq> dom r1" and S1: "?S \<inter> dom r1 = {}"
      by (auto simp: post_def)
    from wf t have nm: "nameOf t = name" by (simp add: all_wf_def)
    from S1 have fresh: "name \<notin> dom r1" by auto
    have inv': "resolver_inv all ordered' resolved'"
      unfolding out using inv1 t nm nb fresh d by (rule inv_snoc)
    have notS: "name \<notin> S"
    proof
      assume "name \<in> S"
      with bl t obtain r where "r \<in> set (dependencies t)" "r \<in> S \<or> r = name"
        by (auto simp: blocked_def)
      with n show False by auto
    qed
    have "post all S ordered resolved ordered' resolved'"
      unfolding post_def using inv' ext mono S1 notS by (auto simp: out)
    with notS show ?thesis by (simp add: out)
  qed
qed

lemma resolve_ok_holds: "all_wf all \<Longrightarrow> resolve_ok all n"
proof (induction n)
  case 0
  show ?case by (simp add: resolve_ok_def resolve.simps)
next
  case (Suc n)
  then show ?case
    by (intro resolve_ok_Suc resolveRefs_ok_of_resolveRef resolveRef_ok_of_resolve) simp_all
qed

subsection \<open>The two loops of Build\<close>

lemma Build_all_None: "Build_all (None # ts) all0 = Inl NilPointerDereference"
  by simp

lemma Build_all_Some: "Build_all (Some u # ts) all0 = Build_all ts (all0(nameOf u \<mapsto> u))"
  by (cases u) simp_all

lemma Build_ordered_None: "Build_ordered n (None # ts) ordered resolved all = Some (Inl NilPointerDereference)"
  by simp

lemma Build_ordered_Some:
  "Build_ordered n (Some u # ts) ordered resolved all =
     (case resolve n ordered resolved all (nameOf u) (superOf u) of
        None \<Rightarrow> None
      | Some (Inl e) \<Rightarrow> Some (Inl e)
      | Some (Inr (ordered1, resolved1)) \<Rightarrow> Build_ordered n ts ordered1 resolved1 all)"
  by (cases u) simp_all

declare Build_all.simps(2) [simp del] Build_ordered.simps(2) [simp del]

lemma Build_all_no_nil: "Build_all ts all0 = Inr all \<Longrightarrow> None \<notin> set ts"
  by (induction ts arbitrary: all0 rule: typeNames.induct) (auto simp: Build_all_None Build_all_Some)

lemma Build_all_total: "None \<notin> set ts \<Longrightarrow> \<exists>all. Build_all ts all0 = Inr all"
  by (induction ts arbitrary: all0 rule: typeNames.induct) (auto simp: Build_all_Some)

lemma Build_all_keep:
  "Build_all ts all0 = Inr all \<Longrightarrow> k \<notin> set (typeNames ts) \<Longrightarrow> all k = all0 k"
  by (induction ts arbitrary: all0 rule: typeNames.induct) (auto simp: Build_all_None Build_all_Some)

lemma Build_all_lookup:
  "Build_all ts all0 = Inr all \<Longrightarrow> all k = Some t \<Longrightarrow> all0 k = Some t \<or> Some t \<in> set ts"
proof (induction ts arbitrary: all0 rule: typeNames.induct)
  case 1
  then show ?case by simp
next
  case (2 ts)
  then show ?case by (simp add: Build_all_None)
next
  case (3 u ts)
  from 3(2) have run: "Build_all ts (all0(nameOf u \<mapsto> u)) = Inr all"
    by (simp add: Build_all_Some)
  from 3(1) [OF run 3(3)] have "(all0(nameOf u \<mapsto> u)) k = Some t \<or> Some t \<in> set ts" .
  then show ?case by (auto split: if_splits)
qed

lemma Build_all_wf: "Build_all ts all0 = Inr all \<Longrightarrow> all_wf all0 \<Longrightarrow> all_wf all"
proof (induction ts arbitrary: all0 rule: typeNames.induct)
  case 1
  then show ?case by simp
next
  case (2 ts)
  then show ?case by (simp add: Build_all_None)
next
  case (3 u ts)
  from 3(3) have "all_wf (all0(nameOf u \<mapsto> u))" by (simp add: all_wf_def)
  with 3 show ?case by (simp add: Build_all_Some)
qed

lemma Build_all_declared:
  "Build_all ts all0 = Inr all \<Longrightarrow> distinct (typeNames ts) \<Longrightarrow> Some t \<in> set ts \<Longrightarrow>
   all (nameOf t) = Some t"
proof (induction ts arbitrary: all0 rule: typeNames.induct)
  case 1
  then show ?case by simp
next
  case (2 ts)
  then show ?case by (simp add: Build_all_None)
next
  case (3 u ts)
  from 3(2) have run: "Build_all ts (all0(nameOf u \<mapsto> u)) = Inr all" by (simp add: Build_all_Some)
  show ?case
  proof (cases "Some t \<in> set ts")
    case True
    with 3 run show ?thesis by simp
  next
    case False
    with 3(4) have "t = u" by simp
    moreover from 3(3) have "nameOf u \<notin> set (typeNames ts)" by simp
    ultimately show ?thesis using Build_all_keep [OF run] by simp
  qed
qed

lemma Build_resolved_dom: "dom (Build_resolved bts resolved) = dom resolved \<union> set bts"
  by (induction bts arbitrary: resolved) auto

lemma namesBaseType_isBaseType: "n \<in> set namesBaseType \<Longrightarrow> isBaseType n"
  by (auto simp: namesBaseType_def isBaseType_def)

lemma resolver_inv_initial: "resolver_inv all [] (Build_resolved namesBaseType Map.empty)"
  by (auto simp: resolver_inv_def Build_resolved_dom namesBaseType_isBaseType)

lemma closed_cycle_blocked: "closed_cycle all S \<Longrightarrow> blocked all S x"
  unfolding closed_cycle_def blocked_def by blast

lemma Build_ordered_post:
  assumes wf: "all_wf all" and cyc: "closed_cycle all S"
  shows "resolver_inv all ordered resolved \<Longrightarrow> S \<inter> dom resolved = {} \<Longrightarrow>
    \<forall>t. Some t \<in> set ts \<longrightarrow> all (nameOf t) = Some t \<Longrightarrow>
    Build_ordered n ts ordered resolved all = Some (Inr (ordered', resolved')) \<Longrightarrow>
    post all S ordered resolved ordered' resolved' \<and>
    (\<forall>t. Some t \<in> set ts \<longrightarrow> isBaseType (nameOf t) \<or> nameOf t \<in> dom resolved') \<and>
    set (typeNames ts) \<inter> S = {}"
proof (induction ts arbitrary: ordered resolved rule: typeNames.induct)
  case 1
  then show ?case by (simp add: post_refl)
next
  case (2 ts)
  then show ?case by (simp add: Build_ordered_None)
next
  case (3 u ts)
  from 3(5) obtain o1 r1 where
    first: "resolve n ordered resolved all (nameOf u) (superOf u) = Some (Inr (o1, r1))" and
    rest: "Build_ordered n ts o1 r1 all = Some (Inr (ordered', resolved'))"
    by (auto simp: Build_ordered_Some split: option.splits sum.splits)
  from 3(4) have u: "all (nameOf u) = Some u" by simp
  from resolve_ok_holds [OF wf, of n] 3(2,3) u closed_cycle_blocked [OF cyc] first
  have p1: "post all S ordered resolved o1 r1" and d1: "isBaseType (nameOf u) \<or> nameOf u \<in> dom r1"
    and n1: "nameOf u \<notin> S"
    unfolding resolve_ok_def by blast+
  from p1 have inv1: "resolver_inv all o1 r1" and S1: "S \<inter> dom r1 = {}" by (auto simp: post_def)
  from 3(1) [OF inv1 S1 _ rest] 3(4)
  have p2: "post all S o1 r1 ordered' resolved'"
    and d2: "\<forall>t. Some t \<in> set ts \<longrightarrow> isBaseType (nameOf t) \<or> nameOf t \<in> dom resolved'"
    and n2: "set (typeNames ts) \<inter> S = {}"
    by auto
  from p2 have "dom r1 \<subseteq> dom resolved'" by (simp add: post_def)
  with d1 d2 n1 n2 post_trans [OF p1 p2] show ?case by auto
qed

lemma Build_returns:
  assumes run: "SchemaBuilder_Build n sb = Some (Inr s)"
  obtains all resolved where
    "Build_all (Schema.Types (SchemaBuilder.proto sb)) Map.empty = Inr all"
    "Build_ordered n (Schema.Types (SchemaBuilder.proto sb)) [] (Build_resolved namesBaseType Map.empty) all
       = Some (Inr (Schema.Types s, resolved))"
    "s = (SchemaBuilder.proto sb)\<lparr>Schema.Types := Schema.Types s\<rparr>"
  using run unfolding SchemaBuilder_Build_def
  by (auto simp: Let_def split: sum.splits option.splits)

lemma Build_sound:
  assumes run: "SchemaBuilder_Build n sb = Some (Inr s)"
    and dist: "distinct (typeNames (Schema.Types (SchemaBuilder.proto sb)))"
  obtains all resolved where
    "Build_all (Schema.Types (SchemaBuilder.proto sb)) Map.empty = Inr all"
    "all_wf all"
    "resolver_inv all (Schema.Types s) resolved"
    "\<forall>t. Some t \<in> set (Schema.Types (SchemaBuilder.proto sb)) \<longrightarrow>
       all (nameOf t) = Some t \<and> (isBaseType (nameOf t) \<or> nameOf t \<in> dom resolved)"
    "\<forall>S. closed_cycle all S \<longrightarrow> set (typeNames (Schema.Types (SchemaBuilder.proto sb))) \<inter> S = {}"
proof -
  let ?ts = "Schema.Types (SchemaBuilder.proto sb)"
  let ?r0 = "Build_resolved namesBaseType Map.empty"
  from run obtain all resolved where
    a: "Build_all ?ts Map.empty = Inr all" and
    b: "Build_ordered n ?ts [] ?r0 all = Some (Inr (Schema.Types s, resolved))"
    by (rule Build_returns)
  from a have wf: "all_wf all" by (rule Build_all_wf) (simp add: all_wf_def)
  have decl: "\<forall>t. Some t \<in> set ?ts \<longrightarrow> all (nameOf t) = Some t"
    using Build_all_declared [OF a dist] by blast
  have base: "dom ?r0 \<subseteq> {k. isBaseType k}"
    by (auto simp: Build_resolved_dom namesBaseType_isBaseType)
  have gen: "post all S [] ?r0 (Schema.Types s) resolved \<and>
    (\<forall>t. Some t \<in> set ?ts \<longrightarrow> isBaseType (nameOf t) \<or> nameOf t \<in> dom resolved) \<and>
    set (typeNames ?ts) \<inter> S = {}" if "closed_cycle all S" for S
  proof (rule Build_ordered_post [OF wf that resolver_inv_initial _ decl b])
    from that base show "S \<inter> dom ?r0 = {}" by (auto simp: closed_cycle_def)
  qed
  have "closed_cycle all {}" by (simp add: closed_cycle_def)
  from gen [OF this] have "resolver_inv all (Schema.Types s) resolved"
    and "\<forall>t. Some t \<in> set ?ts \<longrightarrow> isBaseType (nameOf t) \<or> nameOf t \<in> dom resolved"
    by (auto simp: post_def)
  with a wf decl gen show thesis by (intro that) auto
qed

lemma Build_Types_Inr:
  "Build_Types n sb = Some (Inr ts) \<Longrightarrow>
   SchemaBuilder_Build n sb = Some (Inr ((SchemaBuilder.proto sb)\<lparr>Schema.Types := ts\<rparr>))"
  unfolding Build_Types_def SchemaBuilder_Build_def
  by (auto simp: Let_def split: sum.splits option.splits)

lemma Build_Types_Inl:
  assumes "Build_Types n sb = Some (Inl e)"
  shows "SchemaBuilder_Build n sb = Some (Inl e)"
proof (cases "SchemaBuilder_Build n sb")
  case None
  with assms show ?thesis by (simp add: Build_Types_def)
next
  case (Some a)
  with assms show ?thesis by (cases a) (simp_all add: Build_Types_def)
qed

subsection \<open>Reading the invariant\<close>

lemma resolver_inv_deps:
  "resolver_inv all ordered resolved \<Longrightarrow> i < length ordered \<Longrightarrow> ordered ! i = Some t \<Longrightarrow>
   d \<in> set (dependencies t) \<Longrightarrow> isBaseType d \<or> d \<in> set (typeNames (take i ordered))"
  unfolding resolver_inv_def by blast

lemma resolver_inv_elem:
  "resolver_inv all ordered resolved \<Longrightarrow> x \<in> set ordered \<Longrightarrow>
   \<exists>t. x = Some t \<and> all (nameOf t) = Some t \<and> \<not> isBaseType (nameOf t)"
  unfolding resolver_inv_def by blast

lemma resolver_inv_distinct: "resolver_inv all ordered resolved \<Longrightarrow> distinct (typeNames ordered)"
  unfolding resolver_inv_def by blast

lemma resolver_inv_no_nil: "resolver_inv all ordered resolved \<Longrightarrow> None \<notin> set ordered"
  by (auto dest: resolver_inv_elem)

lemma distinct_names_index:
  assumes "distinct (typeNames xs)" "None \<notin> set xs" "i < length xs" "j < length xs"
    "xs ! i = Some a" "xs ! j = Some b" "nameOf a = nameOf b"
  shows "i = j"
proof -
  from assms(1,2) have d: "distinct (map (\<lambda>x. nameOf (the x)) xs)"
    by (simp add: typeNames_no_nil)
  from assms(3-7) have "map (\<lambda>x. nameOf (the x)) xs ! i = map (\<lambda>x. nameOf (the x)) xs ! j"
    by simp
  with d assms(3,4) show ?thesis
    by (simp add: nth_eq_iff_index_eq del: nth_map)
qed

lemma Build_emits_declared:
  assumes "Build_all ts Map.empty = Inr all" "resolver_inv all ordered resolved" "x \<in> set ordered"
  shows "x \<in> set ts"
proof -
  from resolver_inv_elem [OF assms(2,3)] obtain t where "x = Some t" "all (nameOf t) = Some t"
    by auto
  with Build_all_lookup [OF assms(1)] show ?thesis by auto
qed

lemma Build_emits_all:
  assumes inv: "resolver_inv all ordered resolved"
    and decl: "all (nameOf t) = Some t" and res: "nameOf t \<in> dom resolved"
    and nb: "\<not> isBaseType (nameOf t)"
  shows "Some t \<in> set ordered"
proof -
  from inv have "dom resolved \<subseteq> {n. isBaseType n} \<union> set (typeNames ordered)"
    unfolding resolver_inv_def by blast
  with res nb have "nameOf t \<in> set (typeNames ordered)" by auto
  then obtain u where u: "Some u \<in> set ordered" "nameOf u = nameOf t"
    by (auto simp: typeNames_set)
  with resolver_inv_elem [OF inv u(1)] have "all (nameOf u) = Some u" by simp
  with u decl show ?thesis by simp
qed

subsection \<open>Types with a Base Type name\<close>

lemma no_base_names_snoc:
  "all_wf all \<Longrightarrow> no_base_names ordered \<Longrightarrow> \<not> isBaseType name \<Longrightarrow> no_base_names (ordered @ [all name])"
  by (auto simp: no_base_names_def hasBaseTypeName_def all_wf_def split: option.splits)

lemma resolve_no_base_names:
  "all_wf all \<Longrightarrow> no_base_names ordered \<Longrightarrow>
   resolve n ordered resolved all name super = Some (Inr (ordered', resolved')) \<Longrightarrow>
   no_base_names ordered'"
proof (induction n arbitrary: ordered resolved name super ordered' resolved')
  case 0
  then show ?case by (simp add: resolve.simps)
next
  case (Suc n)
  have ref: "no_base_names o2"
    if "no_base_names o1" "resolveRef n o1 r1 all x = Some (Inr (o2, r2))" for o1 r1 x o2 r2
    using that Suc.IH [OF Suc.prems(1)] unfolding resolveRef.simps
    by (auto split: if_splits sum.splits)
  have fields: "no_base_names o2"
    if "no_base_names o1" "resolveFields n o1 r1 all fs = Some (Inr (o2, r2))" for o1 r1 fs o2 r2
    using that by (induction fs arbitrary: o1 r1) (auto split: option.splits sum.splits dest: ref)
  from Suc.prems(3) show ?case
  proof (cases rule: resolve_Suc_cases)
    case already
    with Suc.prems(2) show ?thesis by simp
  next
    case leaf
    with Suc.prems(1,2) show ?thesis by (simp add: no_base_names_snoc)
  next
    case (array d o1 r1)
    from ref [OF Suc.prems(2) array(3)] Suc.prems(1) array(1,2) show ?thesis
      by (simp add: no_base_names_snoc)
  next
    case (mapping d o1 r1 o2 r2)
    from ref [OF ref [OF Suc.prems(2) mapping(3)] mapping(4)] Suc.prems(1) mapping(1,2) show ?thesis
      by (simp add: no_base_names_snoc)
  next
    case (struct d o1 r1)
    from fields [OF Suc.prems(2) struct(3)] Suc.prems(1) struct(1,2) show ?thesis
      by (simp add: no_base_names_snoc)
  next
    case (other o1 r1)
    from ref [OF Suc.prems(2) other(3)] Suc.prems(1) other(1,2) show ?thesis
      by (simp add: no_base_names_snoc)
  qed
qed

lemma Build_ordered_no_base_names:
  "all_wf all \<Longrightarrow> no_base_names ordered \<Longrightarrow>
   Build_ordered n ts ordered resolved all = Some (Inr (ordered', resolved')) \<Longrightarrow>
   no_base_names ordered'"
proof (induction ts arbitrary: ordered resolved rule: typeNames.induct)
  case 1
  then show ?case by simp
next
  case (2 ts)
  then show ?case by (simp add: Build_ordered_None)
next
  case (3 u ts)
  from 3(4) obtain o1 r1 where
    first: "resolve n ordered resolved all (nameOf u) (superOf u) = Some (Inr (o1, r1))" and
    rest: "Build_ordered n ts o1 r1 all = Some (Inr (ordered', resolved'))"
    by (auto simp: Build_ordered_Some split: option.splits sum.splits)
  from resolve_no_base_names [OF 3(2,3) first] have "no_base_names o1" .
  from 3(1) [OF 3(2) this rest] show ?case .
qed

lemma Build_no_base_names:
  assumes "SchemaBuilder_Build n sb = Some (Inr s)"
  shows "no_base_names (Schema.Types s)"
proof -
  from assms obtain all resolved where
    a: "Build_all (Schema.Types (SchemaBuilder.proto sb)) Map.empty = Inr all" and
    b: "Build_ordered n (Schema.Types (SchemaBuilder.proto sb)) [] (Build_resolved namesBaseType Map.empty) all
       = Some (Inr (Schema.Types s, resolved))"
    by (rule Build_returns)
  from a have "all_wf all" by (rule Build_all_wf) (simp add: all_wf_def)
  from Build_ordered_no_base_names [OF this _ b] show ?thesis by (simp add: no_base_names_def)
qed

lemma resolve_agree:
  "agree all all' \<Longrightarrow>
   resolve n ordered resolved all name super = resolve n ordered resolved all' name super"
proof (induction n arbitrary: ordered resolved name super)
  case 0
  show ?case by (simp add: resolve.simps)
next
  case (Suc n)
  have ref: "resolveRef n o1 r1 all x = resolveRef n o1 r1 all' x" for o1 r1 x
    using Suc.prems Suc.IH [OF Suc.prems] unfolding resolveRef.simps
    by (simp add: agree_def split: sum.splits)
  have fields: "resolveFields n o1 r1 all fs = resolveFields n o1 r1 all' fs" for o1 r1 fs
    by (induction fs arbitrary: o1 r1) (simp_all add: ref split: option.splits sum.splits)
  show ?case
  proof (cases "resolved name \<noteq> None \<or> isBaseType name")
    case True
    then show ?thesis by (simp add: resolve_done)
  next
    case False
    with Suc.prems have "all name = all' name" by (simp add: agree_def)
    then show ?thesis unfolding resolve.simps by (simp only: ref fields)
  qed
qed

lemma filter_base_named:
  "isBaseType (nameOf u) \<Longrightarrow>
   filter (\<lambda>x. \<not> hasBaseTypeName x) (Some u # ts) = filter (\<lambda>x. \<not> hasBaseTypeName x) ts"
  "\<not> isBaseType (nameOf u) \<Longrightarrow>
   filter (\<lambda>x. \<not> hasBaseTypeName x) (Some u # ts) = Some u # filter (\<lambda>x. \<not> hasBaseTypeName x) ts"
  "filter (\<lambda>x. \<not> hasBaseTypeName x) (None # ts) = None # filter (\<lambda>x. \<not> hasBaseTypeName x) ts"
  by (simp_all add: hasBaseTypeName_def)

lemma Build_all_agree:
  "agree a0 a0' \<Longrightarrow>
   rel_sum (=) agree (Build_all ts a0) (Build_all (filter (\<lambda>x. \<not> hasBaseTypeName x) ts) a0')"
proof (induction ts arbitrary: a0 a0' rule: typeNames.induct)
  case 1
  then show ?case by simp
next
  case (2 ts)
  show ?case unfolding filter_base_named Build_all_None by simp
next
  case (3 u ts)
  show ?case
  proof (cases "isBaseType (nameOf u)")
    case True
    with 3(2) have "agree (a0(nameOf u \<mapsto> u)) a0'" by (simp add: agree_def)
    then show ?thesis unfolding filter_base_named(1) [OF True] Build_all_Some by (rule 3(1))
  next
    case False
    from 3(2) have "agree (a0(nameOf u \<mapsto> u)) (a0'(nameOf u \<mapsto> u))" by (simp add: agree_def)
    then show ?thesis unfolding filter_base_named(2) [OF False] Build_all_Some by (rule 3(1))
  qed
qed

lemma Build_ordered_agree:
  "agree all all' \<Longrightarrow>
   Build_ordered (Suc n) ts ordered resolved all =
   Build_ordered (Suc n) (filter (\<lambda>x. \<not> hasBaseTypeName x) ts) ordered resolved all'"
proof (induction ts arbitrary: ordered resolved rule: typeNames.induct)
  case 1
  then show ?case by simp
next
  case (2 ts)
  show ?case unfolding filter_base_named Build_ordered_None by simp
next
  case (3 u ts)
  show ?case
  proof (cases "isBaseType (nameOf u)")
    case True
    then have "resolve (Suc n) ordered resolved all (nameOf u) (superOf u) = Some (Inr (ordered, resolved))"
      by (simp add: resolve_done)
    then show ?thesis
      unfolding filter_base_named(1) [OF True] Build_ordered_Some using 3(1) [OF 3(2)] by simp
  next
    case False
    show ?thesis
      unfolding filter_base_named(2) [OF False] Build_ordered_Some resolve_agree [OF 3(2)]
      using 3(1) [OF 3(2)] by (simp split: option.splits sum.splits)
  qed
qed

subsection \<open>Types that are already in order\<close>

lemma resolveRefs_resolved:
  "\<forall>d\<in>set ds. isBaseType d \<or> (resolved d \<noteq> None \<and> all d \<noteq> None) \<Longrightarrow>
   resolveRefs (Suc n) ordered resolved all ds = Some (Inr (ordered, resolved))"
proof (induction ds)
  case Nil
  show ?case by simp
next
  case (Cons d ds)
  have "resolveRef (Suc n) ordered resolved all d = Some (Inr (ordered, resolved))"
  proof (cases "isBaseType d")
    case True
    then show ?thesis by (simp add: resolveRef.simps)
  next
    case False
    with Cons.prems obtain u where "resolved d \<noteq> None" "all d = Some u" by auto
    with False show ?thesis
      by (cases u) (simp_all add: resolveRef.simps resolve_done)
  qed
  with Cons show ?case by simp
qed

lemma Build_ordered_valid:
  assumes all: "\<forall>t. Some t \<in> set (finished @ rest) \<longrightarrow> all (nameOf t) = Some t"
    and dist: "distinct (typeNames (finished @ rest))"
    and dom: "dom resolved \<subseteq> {k. isBaseType k} \<union> set (typeNames finished)"
      "set (typeNames finished) \<subseteq> dom resolved"
    and ok: "\<forall>i<length rest. \<exists>t. rest ! i = Some t \<and> \<not> isBaseType (nameOf t) \<and> readable t \<and>
        (\<forall>r\<in>set (dependencies t). isBaseType r \<or> r \<in> set (typeNames (finished @ take i rest)))"
  shows "\<exists>resolved'. Build_ordered (Suc (Suc n)) rest finished resolved all =
           Some (Inr (finished @ rest, resolved'))"
  using assms
proof (induction rest arbitrary: finished resolved)
  case Nil
  show ?case by simp
next
  case (Cons x rest)
  from Cons.prems(5) [rule_format, of 0] obtain t where x: "x = Some t"
    and nb: "\<not> isBaseType (nameOf t)" and rd: "readable t"
    and deps: "\<forall>r\<in>set (dependencies t). isBaseType r \<or> r \<in> set (typeNames finished)"
    by auto
  from Cons.prems(1) x have t: "all (nameOf t) = Some t" by simp
  from Cons.prems(2) x have fresh: "nameOf t \<notin> set (typeNames finished)"
    by (simp add: typeNames_append)
  with Cons.prems(3) nb have unres: "resolved (nameOf t) = None" by auto
  have known: "\<forall>d\<in>set (dependencies t). isBaseType d \<or> (resolved d \<noteq> None \<and> all d \<noteq> None)"
  proof
    fix d assume "d \<in> set (dependencies t)"
    with deps have "isBaseType d \<or> d \<in> set (typeNames finished)" by simp
    then show "isBaseType d \<or> (resolved d \<noteq> None \<and> all d \<noteq> None)"
    proof
      assume "d \<in> set (typeNames finished)"
      moreover from this obtain u where "Some u \<in> set finished" "nameOf u = d"
        by (auto simp: typeNames_set)
      ultimately show ?thesis using Cons.prems(1,4) by auto
    qed simp
  qed
  have first: "resolve (Suc (Suc n)) finished resolved all (nameOf t) (superOf t) =
      Some (Inr (finished @ [Some t], resolved(nameOf t \<mapsto> True)))"
    by (simp add: resolve_step [of all "nameOf t" t resolved, OF t unres nb] rd
        resolveRefs_resolved [OF known])
  have "\<exists>resolved'. Build_ordered (Suc (Suc n)) rest (finished @ [Some t]) (resolved(nameOf t \<mapsto> True)) all =
           Some (Inr ((finished @ [Some t]) @ rest, resolved'))"
  proof (rule Cons.IH)
    show "\<forall>u. Some u \<in> set ((finished @ [Some t]) @ rest) \<longrightarrow> all (nameOf u) = Some u"
      using Cons.prems(1) x by auto
    show "distinct (typeNames ((finished @ [Some t]) @ rest))"
      using Cons.prems(2) x by (simp add: typeNames_append)
    show "dom (resolved(nameOf t \<mapsto> True)) \<subseteq> {k. isBaseType k} \<union> set (typeNames (finished @ [Some t]))"
      using Cons.prems(3) by (auto simp: typeNames_append)
    show "set (typeNames (finished @ [Some t])) \<subseteq> dom (resolved(nameOf t \<mapsto> True))"
      using Cons.prems(4) by (auto simp: typeNames_append)
    show "\<forall>i<length rest. \<exists>u. rest ! i = Some u \<and> \<not> isBaseType (nameOf u) \<and> readable u \<and>
        (\<forall>r\<in>set (dependencies u). isBaseType r \<or> r \<in> set (typeNames ((finished @ [Some t]) @ take i rest)))"
    proof (intro allI impI)
      fix i assume "i < length rest"
      with Cons.prems(5) [rule_format, of "Suc i"] x
      show "\<exists>u. rest ! i = Some u \<and> \<not> isBaseType (nameOf u) \<and> readable u \<and>
        (\<forall>r\<in>set (dependencies u). isBaseType r \<or> r \<in> set (typeNames ((finished @ [Some t]) @ take i rest)))"
        by simp
    qed
  qed
  with first x show ?case by (simp add: Build_ordered_Some)
qed

subsection \<open>The outcome does not depend on the fuel\<close>

text \<open>
  A call that returns or panics with some fuel does the same with any more fuel: the fuel
  only bounds the recursion, it decides nothing.
\<close>

lemma resolve_fuel_Suc:
  "resolve n ordered resolved all name super = Some x \<Longrightarrow>
   resolve (Suc n) ordered resolved all name super = Some x"
proof (induction n arbitrary: ordered resolved name super x)
  case 0
  then show ?case by (simp add: resolve.simps)
next
  case (Suc n)
  have ref: "resolveRef (Suc n) o1 r1 all y = Some z"
    if "resolveRef n o1 r1 all y = Some z" for o1 r1 y z
    using that Suc.IH unfolding resolveRef.simps by (auto split: if_splits sum.splits)
  have fields: "resolveFields (Suc n) o1 r1 all fs = Some z"
    if "resolveFields n o1 r1 all fs = Some z" for o1 r1 fs z
    using that
  proof (induction fs arbitrary: o1 r1)
    case Nil
    then show ?case by simp
  next
    case (Cons f fs)
    then show ?case
      by (cases "resolveRef n o1 r1 all (StructFieldDef.Type f)")
         (auto simp: ref split: sum.splits)
  qed
  show ?case
  proof (cases "resolved name \<noteq> None \<or> isBaseType name")
    case True
    with Suc.prems show ?thesis by (simp add: resolve_done)
  next
    case False
    define inner where "inner m =
      (if super \<in> set [''String'', ''Bytes'', ''Bool'', ''Int8'', ''Int16'', ''Int32'',
                        ''Int64'', ''Float32'', ''Float64'', ''UUID'', ''Timestamp'']
       then Some (Inr (ordered, resolved))
       else if super = ''Array'' then
         (case Type_ArrayTypeDef (all name) of
            Inl e \<Rightarrow> Some (Inl e)
          | Inr d \<Rightarrow> resolveRef m ordered resolved all (ArrayTypeDef.Items d))
       else if super = ''Map'' then
         (case Type_MapTypeDef (all name) of
            Inl e \<Rightarrow> Some (Inl e)
          | Inr d \<Rightarrow>
              (case resolveRef m ordered resolved all (MapTypeDef.Items d) of
                 None \<Rightarrow> None
               | Some (Inl e) \<Rightarrow> Some (Inl e)
               | Some (Inr (ordered1, resolved1)) \<Rightarrow>
                   resolveRef m ordered1 resolved1 all (MapTypeDef.Keys d)))
       else if super = ''Struct'' then
         (case Type_StructTypeDef (all name) of
            Inl e \<Rightarrow> Some (Inl e)
          | Inr d \<Rightarrow> resolveFields m ordered resolved all (StructTypeDef.Fields d))
       else resolveRef m ordered resolved all super)" for m
    have unfold: "resolve (Suc m) ordered resolved all name super =
      (case inner m of
         None \<Rightarrow> None
       | Some (Inl e) \<Rightarrow> Some (Inl e)
       | Some (Inr (ordered', resolved')) \<Rightarrow>
           Some (Inr (ordered' @ [all name], resolved'(name \<mapsto> True))))" for m
      using False unfolding resolve.simps inner_def Let_def by simp
    from Suc.prems obtain y where y: "inner n = Some y"
      unfolding unfold by (cases "inner n") simp_all
    have "inner (Suc n) = Some y"
    proof (cases "Type_MapTypeDef (all name)")
      case (Inl e)
      with y show ?thesis
        unfolding inner_def by (auto split: if_splits sum.splits dest: ref fields)
    next
      case (Inr d)
      show ?thesis
      proof (cases "resolveRef n ordered resolved all (MapTypeDef.Items d)")
        case None
        with y Inr show ?thesis
          unfolding inner_def by (auto split: if_splits sum.splits dest: ref fields)
      next
        case (Some v)
        from ref [OF Some] have v: "resolveRef (Suc n) ordered resolved all (MapTypeDef.Items d) = Some v" .
        from y Inr Some v show ?thesis
          unfolding inner_def by (auto split: if_splits sum.splits dest: ref fields)
      qed
    qed
    with Suc.prems y show ?thesis unfolding unfold by simp
  qed
qed

lemma resolve_fuel_mono:
  "resolve n ordered resolved all name super = Some x \<Longrightarrow>
   resolve (n + k) ordered resolved all name super = Some x"
  by (induction k) (simp_all add: resolve_fuel_Suc)

lemma Build_ordered_fuel_mono:
  "Build_ordered n ts ordered resolved all = Some x \<Longrightarrow>
   Build_ordered (n + k) ts ordered resolved all = Some x"
proof (induction ts arbitrary: ordered resolved rule: typeNames.induct)
  case 1
  then show ?case by simp
next
  case (2 ts)
  then show ?case by (simp add: Build_ordered_None)
next
  case (3 u ts)
  from 3(2) obtain y where y: "resolve n ordered resolved all (nameOf u) (superOf u) = Some y"
    by (cases "resolve n ordered resolved all (nameOf u) (superOf u)")
       (simp_all add: Build_ordered_Some)
  from resolve_fuel_mono [OF y, of k] y 3 show ?case
    by (auto simp: Build_ordered_Some split: sum.splits)
qed

lemma SchemaBuilder_Build_fuel_mono:
  "SchemaBuilder_Build n sb = Some x \<Longrightarrow> SchemaBuilder_Build (n + k) sb = Some x"
  unfolding SchemaBuilder_Build_def Let_def
  by (auto split: sum.splits option.splits dest: Build_ordered_fuel_mono [where k = k])

lemma Build_Types_fuel_mono:
  "Build_Types n sb = Some x \<Longrightarrow> Build_Types (n + k) sb = Some x"
  unfolding Build_Types_def by (auto dest: SchemaBuilder_Build_fuel_mono [where k = k])

lemma Build_Types_all_fuel:
  "Build_Types n sb = Some x \<Longrightarrow> \<forall>k. Build_Types (n + k) sb = Some x"
  by (blast dest: Build_Types_fuel_mono)

subsection \<open>The resource builder\<close>

lemma Exception_lookup:
  "Exceptions_lookup (ResourceBuilder_Build (ResourceBuilder_Exception rb symb typename comment)) other =
     (if other = symb then Some \<lparr>ExceptionDef.Type = typename, ExceptionDef.Comment = comment\<rparr>
      else Exceptions_lookup (ResourceBuilder_Build rb) other)"
  by (simp add: Exceptions_lookup_def ResourceBuilder_Build_def ResourceBuilder_Exception_def
      split: option.splits)

lemma Exception_calls_other:
  "other \<notin> fst ` set calls \<Longrightarrow>
   Exceptions_lookup (ResourceBuilder_Build (Exception_calls rb calls)) other =
   Exceptions_lookup (ResourceBuilder_Build rb) other"
  by (induction rb calls rule: Exception_calls.induct) (auto simp: Exception_lookup)

lemma Exception_calls_append:
  "Exception_calls rb (xs @ ys) = Exception_calls (Exception_calls rb xs) ys"
  by (induction rb xs rule: Exception_calls.induct) auto

subsection \<open>The two aliases of each other\<close>

lemma example_cycle_resolve:
  assumes "resolved ''A'' = None" "resolved ''B'' = None"
    "all ''A'' = Some example_A" "all ''B'' = Some example_B"
  shows "resolve n ordered resolved all ''A'' ''B'' = None \<and>
         resolve n ordered resolved all ''B'' ''A'' = None"
proof (induction n)
  case 0
  show ?case by (simp add: resolve.simps)
next
  case (Suc n)
  have nb: "\<not> isBaseType ''A''" "\<not> isBaseType ''B''" by (simp_all add: isBaseType_def)
  have a: "TypeInfo (Some example_A) = Inr (''A'', ''B'', [])"
    and b: "TypeInfo (Some example_B) = Inr (''B'', ''A'', [])"
    by (simp_all add: example_A_def example_B_def AliasTypeBuilder_Build_def NewAliasTypeBuilder_def)
  from Suc have "resolveRef n ordered resolved all ''B'' = None"
    and "resolveRef n ordered resolved all ''A'' = None"
    by (simp_all add: resolveRef.simps nb assms a b)
  then show ?case by (simp add: resolve.simps nb assms)
qed

section \<open>The claims\<close>

text \<open>
  Claim C1 says that in a schema that finalize returns every declared type that an output
  type references through its supertype, its array item type, its map key or item type or
  one of its struct field types stands strictly before it. The code breaks this for a
  struct whose supertype is a declared type: \<open>Derived\<close> has the declared struct \<open>Base\<close> as
  supertype and a field of the declared type \<open>Other\<close>. \<^verbatim>\<open>resolve\<close> takes its default case,
  resolves \<open>Base\<close> and emits \<open>Derived\<close> without looking at the fields, which its \<^verbatim>\<open>Struct\<close>
  case would have resolved. With any fuel from 2 on, \<open>Other\<close> is emitted after \<open>Derived\<close>.
\<close>

theorem derived_struct_field_not_resolved:
  "(\<forall>k. Build_Types (2 + k)
          (AddTypes (NewSchemaBuilder ''s'') [example_Derived, example_Base, example_Other]) =
        Some (Inr [Some example_Base, Some example_Derived, Some example_Other])) \<and>
   [Some example_Base, Some example_Derived, Some example_Other] ! 1 = Some example_Derived \<and>
   ''Other'' \<in> set (fieldTypes example_Derived) \<and>
   \<not> isBaseType ''Other'' \<and>
   ''Other'' \<in> set (typeNames [Some example_Derived, Some example_Base, Some example_Other]) \<and>
   ''Other'' \<notin> set (typeNames (take 1 [Some example_Base, Some example_Derived, Some example_Other]))"
proof -
  have "Build_Types 2 (AddTypes (NewSchemaBuilder ''s'') [example_Derived, example_Base, example_Other]) =
      Some (Inr [Some example_Base, Some example_Derived, Some example_Other])"
    by code_simp
  then have "\<forall>k. Build_Types (2 + k)
          (AddTypes (NewSchemaBuilder ''s'') [example_Derived, example_Base, example_Other]) =
        Some (Inr [Some example_Base, Some example_Derived, Some example_Other])"
    by (rule Build_Types_all_fuel)
  moreover have
    "[Some example_Base, Some example_Derived, Some example_Other] ! 1 = Some example_Derived \<and>
     ''Other'' \<in> set (fieldTypes example_Derived) \<and>
     \<not> isBaseType ''Other'' \<and>
     ''Other'' \<in> set (typeNames [Some example_Derived, Some example_Base, Some example_Other]) \<and>
     ''Other'' \<notin> set (typeNames (take 1 [Some example_Base, Some example_Derived, Some example_Other]))"
    by code_simp
  ultimately show ?thesis by blast
qed

text \<open>
  What the resolver does achieve: in a schema that finalize returns, built from types with
  unique names, every reference that it follows from an emitted type \<open>t\<close> (see
  \<open>dependencies\<close>) and that is no Base Type name is the name of a type emitted strictly before
  \<open>t\<close>. In Example 1, \<open>Line\<close> is declared before \<open>Point\<close>, and \<open>Point\<close> is emitted first.
\<close>

theorem followed_references_precede:
  assumes "SchemaBuilder_Build n sb = Some (Inr s)"
    and "distinct (typeNames (Schema.Types (SchemaBuilder.proto sb)))"
    and "i < length (Schema.Types s)" and "Schema.Types s ! i = Some t"
    and "r \<in> set (dependencies t)" and "\<not> isBaseType r"
  shows "\<exists>j<i. \<exists>u. Schema.Types s ! j = Some u \<and> nameOf u = r"
proof -
  from assms(1,2) obtain all resolved where inv: "resolver_inv all (Schema.Types s) resolved"
    by (rule Build_sound)
  from resolver_inv_deps [OF inv assms(3,4,5)] assms(6)
  have "r \<in> set (typeNames (take i (Schema.Types s)))" by simp
  then show ?thesis by (blast dest: typeNames_take_mem)
qed

theorem followed_references_precede_witness:
  "SchemaBuilder_Build 2 (AddTypes (NewSchemaBuilder ''geometry'') [example_Line, example_Point]) =
     Some (Inr ((SchemaBuilder.proto (AddTypes (NewSchemaBuilder ''geometry'') [example_Line, example_Point]))
                  \<lparr>Schema.Types := [Some example_Point, Some example_Line]\<rparr>)) \<and>
   ''Point'' \<in> set (dependencies example_Line) \<and>
   (\<exists>j<1. \<exists>u. [Some example_Point, Some example_Line] ! j = Some u \<and> nameOf u = ''Point'')"
proof -
  let ?sb = "AddTypes (NewSchemaBuilder ''geometry'') [example_Line, example_Point]"
  let ?s = "(SchemaBuilder.proto ?sb)\<lparr>Schema.Types := [Some example_Point, Some example_Line]\<rparr>"
  have "Build_Types 2 ?sb = Some (Inr [Some example_Point, Some example_Line])" by code_simp
  then have run: "SchemaBuilder_Build 2 ?sb = Some (Inr ?s)" by (rule Build_Types_Inr)
  have dist: "distinct (typeNames (Schema.Types (SchemaBuilder.proto ?sb)))" by code_simp
  have i: "1 < length (Schema.Types ?s)" "Schema.Types ?s ! 1 = Some example_Line" by simp_all
  have r: "''Point'' \<in> set (dependencies example_Line)" "\<not> isBaseType ''Point''" by code_simp+
  from followed_references_precede [OF run dist i r] run r(1) show ?thesis by simp
qed

text \<open>
  Claim C2, as amended. In a schema that finalize returns, built from types with unique names
  none of which is a Base Type name, the output is a permutation of the declared types.
\<close>

theorem unique_names_permutation:
  assumes "SchemaBuilder_Build n sb = Some (Inr s)"
    and "distinct (typeNames (Schema.Types (SchemaBuilder.proto sb)))"
    and "\<forall>t. Some t \<in> set (Schema.Types (SchemaBuilder.proto sb)) \<longrightarrow> \<not> isBaseType (nameOf t)"
  shows "mset (Schema.Types s) = mset (Schema.Types (SchemaBuilder.proto sb))"
proof -
  let ?ts = "Schema.Types (SchemaBuilder.proto sb)"
  from assms(1,2) obtain all resolved where
    all: "Build_all ?ts Map.empty = Inr all" and
    inv: "resolver_inv all (Schema.Types s) resolved" and
    decl: "\<forall>t. Some t \<in> set ?ts \<longrightarrow>
      all (nameOf t) = Some t \<and> (isBaseType (nameOf t) \<or> nameOf t \<in> dom resolved)"
    by (rule Build_sound)
  have nil: "None \<notin> set ?ts" using all by (rule Build_all_no_nil)
  have nil': "None \<notin> set (Schema.Types s)" using inv by (rule resolver_inv_no_nil)
  have d1: "distinct ?ts"
    using assms(2) nil by (simp add: typeNames_no_nil distinct_map)
  have d2: "distinct (Schema.Types s)"
    using resolver_inv_distinct [OF inv] nil' by (simp add: typeNames_no_nil distinct_map)
  have "set (Schema.Types s) = set ?ts"
  proof (intro equalityI subsetI)
    fix x assume "x \<in> set (Schema.Types s)"
    then show "x \<in> set ?ts" by (rule Build_emits_declared [OF all inv])
  next
    fix x assume x: "x \<in> set ?ts"
    with nil obtain t where t: "x = Some t" by (cases x) auto
    with x decl assms(3) have "all (nameOf t) = Some t" "nameOf t \<in> dom resolved" "\<not> isBaseType (nameOf t)"
      by auto
    with t show "x \<in> set (Schema.Types s)" by (simp add: Build_emits_all [OF inv])
  qed
  with d1 d2 show ?thesis by (simp add: set_eq_iff_mset_eq_distinct)
qed

text \<open>Example 1 again: the two declared types come out, in the other order.\<close>

theorem unique_names_permutation_witness:
  "SchemaBuilder_Build 2 (AddTypes (NewSchemaBuilder ''geometry'') [example_Line, example_Point]) =
     Some (Inr ((SchemaBuilder.proto (AddTypes (NewSchemaBuilder ''geometry'') [example_Line, example_Point]))
                  \<lparr>Schema.Types := [Some example_Point, Some example_Line]\<rparr>)) \<and>
   mset [Some example_Point, Some example_Line] = mset [Some example_Line, Some example_Point]"
proof -
  let ?sb = "AddTypes (NewSchemaBuilder ''geometry'') [example_Line, example_Point]"
  let ?s = "(SchemaBuilder.proto ?sb)\<lparr>Schema.Types := [Some example_Point, Some example_Line]\<rparr>"
  have "Build_Types 2 ?sb = Some (Inr [Some example_Point, Some example_Line])" by code_simp
  then have run: "SchemaBuilder_Build 2 ?sb = Some (Inr ?s)" by (rule Build_Types_Inr)
  have dist: "distinct (typeNames (Schema.Types (SchemaBuilder.proto ?sb)))" by code_simp
  have nb: "\<forall>t. Some t \<in> set (Schema.Types (SchemaBuilder.proto ?sb)) \<longrightarrow> \<not> isBaseType (nameOf t)"
  proof (intro allI impI)
    fix t assume "Some t \<in> set (Schema.Types (SchemaBuilder.proto ?sb))"
    then have "t = example_Line \<or> t = example_Point"
      by (simp add: SchemaBuilder_AddType_def NewSchemaBuilder_def)
    moreover have "\<not> isBaseType (nameOf example_Line)" "\<not> isBaseType (nameOf example_Point)"
      by code_simp+
    ultimately show "\<not> isBaseType (nameOf t)" by auto
  qed
  have ts: "Schema.Types (SchemaBuilder.proto ?sb) = [Some example_Line, Some example_Point]"
    by (simp add: SchemaBuilder_AddType_def NewSchemaBuilder_def)
  from unique_names_permutation [OF run dist nb] run ts show ?thesis by simp
qed

text \<open>
  The claim as stated fails: a single declared type named \<open>UUID\<close> has a unique name, and
  finalize returns a schema with no type at all.
\<close>

theorem unique_names_permutation_counterexample:
  "(\<forall>k. Build_Types (1 + k) (AddTypes (NewSchemaBuilder ''s'') [example_UUID]) = Some (Inr [])) \<and>
   Schema.Types (SchemaBuilder.proto (AddTypes (NewSchemaBuilder ''s'') [example_UUID])) =
     [Some example_UUID] \<and>
   distinct (typeNames [Some example_UUID]) \<and>
   mset ([] :: Type option list) \<noteq> mset [Some example_UUID]"
proof -
  have "Build_Types 1 (AddTypes (NewSchemaBuilder ''s'') [example_UUID]) = Some (Inr [])"
    by code_simp
  then have "\<forall>k. Build_Types (1 + k) (AddTypes (NewSchemaBuilder ''s'') [example_UUID]) = Some (Inr [])"
    by (rule Build_Types_all_fuel)
  moreover have "Schema.Types (SchemaBuilder.proto (AddTypes (NewSchemaBuilder ''s'') [example_UUID])) =
      [Some example_UUID]"
    by (simp add: SchemaBuilder_AddType_def NewSchemaBuilder_def)
  moreover have "distinct (typeNames [Some example_UUID])" by simp
  moreover have "mset ([] :: Type option list) \<noteq> mset [Some example_UUID]" by simp
  ultimately show ?thesis by blast
qed

text \<open>
  Claim C3, as amended. In a schema that finalize returns, built from types with unique
  names, the output is a topological order of the references the resolver follows: when the
  emitted type \<open>a\<close> follows a reference to the emitted type \<open>b\<close>, then \<open>b\<close> stands before \<open>a\<close>.
  Union variants and the item and key types of inline array and map fields are not
  followed, so they are not ordered.
\<close>

theorem followed_references_topological:
  assumes "SchemaBuilder_Build n sb = Some (Inr s)"
    and "distinct (typeNames (Schema.Types (SchemaBuilder.proto sb)))"
    and "i < length (Schema.Types s)" and "j < length (Schema.Types s)"
    and "Schema.Types s ! i = Some a" and "Schema.Types s ! j = Some b"
    and "nameOf b \<in> set (dependencies a)"
  shows "j < i"
proof -
  from assms(1,2) obtain all resolved where inv: "resolver_inv all (Schema.Types s) resolved"
    by (rule Build_sound)
  from assms(4,6) have "Some b \<in> set (Schema.Types s)" by (auto simp: in_set_conv_nth)
  from resolver_inv_elem [OF inv this] have nb: "\<not> isBaseType (nameOf b)" by simp
  with resolver_inv_deps [OF inv assms(3,5,7)]
  have "nameOf b \<in> set (typeNames (take i (Schema.Types s)))" by simp
  then obtain k u where k: "k < i" "k < length (Schema.Types s)" "Schema.Types s ! k = Some u" "nameOf u = nameOf b"
    by (blast dest: typeNames_take_mem)
  from inv have "distinct (typeNames (Schema.Types s))" by (rule resolver_inv_distinct)
  from distinct_names_index [OF this resolver_inv_no_nil [OF inv] k(2) assms(4) k(3) assms(6) k(4)] k(1)
  show ?thesis by simp
qed

text \<open>\<open>Derived\<close> follows its supertype \<open>Base\<close>, which is emitted before it.\<close>

theorem followed_references_topological_witness:
  "SchemaBuilder_Build 2 (AddTypes (NewSchemaBuilder ''s'') [example_Derived, example_Base, example_Other]) =
     Some (Inr ((SchemaBuilder.proto (AddTypes (NewSchemaBuilder ''s'') [example_Derived, example_Base, example_Other]))
                  \<lparr>Schema.Types := [Some example_Base, Some example_Derived, Some example_Other]\<rparr>)) \<and>
   nameOf example_Base \<in> set (dependencies example_Derived) \<and> (0::nat) < 1"
proof -
  let ?sb = "AddTypes (NewSchemaBuilder ''s'') [example_Derived, example_Base, example_Other]"
  let ?out = "[Some example_Base, Some example_Derived, Some example_Other]"
  let ?s = "(SchemaBuilder.proto ?sb)\<lparr>Schema.Types := ?out\<rparr>"
  have "Build_Types 2 ?sb = Some (Inr ?out)" by code_simp
  then have run: "SchemaBuilder_Build 2 ?sb = Some (Inr ?s)" by (rule Build_Types_Inr)
  have dist: "distinct (typeNames (Schema.Types (SchemaBuilder.proto ?sb)))" by code_simp
  have ij: "1 < length (Schema.Types ?s)" "0 < length (Schema.Types ?s)"
    "Schema.Types ?s ! 1 = Some example_Derived" "Schema.Types ?s ! 0 = Some example_Base"
    by simp_all
  have r: "nameOf example_Base \<in> set (dependencies example_Derived)" by code_simp
  from followed_references_topological [OF run dist ij r] run r show ?thesis by simp
qed

text \<open>
  The claim as stated fails: the union \<open>Shape\<close> has the declared type \<open>Point\<close> as a variant,
  and \<open>Point\<close>, declared second, is emitted second. \<^verbatim>\<open>resolve\<close> has no case for a union: the
  supertype \<open>Union\<close> falls to the default case, which resolves the Base Type name \<open>Union\<close>.
\<close>

theorem followed_references_topological_counterexample:
  "(\<forall>k. Build_Types (1 + k) (AddTypes (NewSchemaBuilder ''s'') [example_Shape, example_Point]) =
        Some (Inr [Some example_Shape, Some example_Point])) \<and>
   nameOf example_Point \<in> set (unionVariants example_Shape) \<and>
   [Some example_Shape, Some example_Point] ! 0 = Some example_Shape \<and>
   [Some example_Shape, Some example_Point] ! 1 = Some example_Point \<and>
   \<not> (1::nat) < 0"
proof -
  have "Build_Types 1 (AddTypes (NewSchemaBuilder ''s'') [example_Shape, example_Point]) =
      Some (Inr [Some example_Shape, Some example_Point])"
    by code_simp
  then have "\<forall>k. Build_Types (1 + k) (AddTypes (NewSchemaBuilder ''s'') [example_Shape, example_Point]) =
        Some (Inr [Some example_Shape, Some example_Point])"
    by (rule Build_Types_all_fuel)
  moreover have
    "nameOf example_Point \<in> set (unionVariants example_Shape) \<and>
     [Some example_Shape, Some example_Point] ! 0 = Some example_Shape \<and>
     [Some example_Shape, Some example_Point] ! 1 = Some example_Point \<and>
     \<not> (1::nat) < 0"
    by code_simp
  ultimately show ?thesis by blast
qed

text \<open>
  Claim C4, as amended. When a declared type, of a schema with unique names, whose own name
  is no Base Type name follows a reference to a name that is neither a Base Type nor
  declared, finalize returns no schema: it panics on a nil pointer, which names neither the
  reference nor the referring type (or, where a reference cycle comes first, the recursion
  has no end). There is no Dangling Reference error, and a reference that the resolver does
  not follow is not looked up.
\<close>

theorem dangling_followed_reference_fails:
  assumes "distinct (typeNames (Schema.Types (SchemaBuilder.proto sb)))"
    and "Some t \<in> set (Schema.Types (SchemaBuilder.proto sb))" and "\<not> isBaseType (nameOf t)"
    and "r \<in> set (dependencies t)" and "\<not> isBaseType r"
    and "r \<notin> set (typeNames (Schema.Types (SchemaBuilder.proto sb)))"
  shows "SchemaBuilder_Build n sb = None \<or> SchemaBuilder_Build n sb = Some (Inl NilPointerDereference)"
proof -
  have "SchemaBuilder_Build n sb \<noteq> Some (Inr s)" for s
  proof
    assume run: "SchemaBuilder_Build n sb = Some (Inr s)"
    from run assms(1) obtain all resolved where
      all: "Build_all (Schema.Types (SchemaBuilder.proto sb)) Map.empty = Inr all" and
      inv: "resolver_inv all (Schema.Types s) resolved" and
      decl: "\<forall>t. Some t \<in> set (Schema.Types (SchemaBuilder.proto sb)) \<longrightarrow>
        all (nameOf t) = Some t \<and> (isBaseType (nameOf t) \<or> nameOf t \<in> dom resolved)"
      by (rule Build_sound)
    from decl assms(2,3) have "all (nameOf t) = Some t" "nameOf t \<in> dom resolved" by auto
    from Build_emits_all [OF inv this assms(3)] obtain i where
      i: "i < length (Schema.Types s)" "Schema.Types s ! i = Some t"
      by (auto simp: in_set_conv_nth)
    from resolver_inv_deps [OF inv i assms(4)] assms(5)
    have "r \<in> set (typeNames (take i (Schema.Types s)))" by simp
    then obtain u where "Some u \<in> set (Schema.Types s)" "nameOf u = r"
      by (auto simp: typeNames_set dest: in_set_takeD)
    with Build_emits_declared [OF all inv] have "r \<in> set (typeNames (Schema.Types (SchemaBuilder.proto sb)))"
      by (auto simp: typeNames_set)
    with assms(6) show False by simp
  qed
  then show ?thesis by (rule not_returned)
qed

text \<open>Example 4: the struct \<open>Self\<close> with a field of the undeclared type \<open>Missing\<close> panics.\<close>

theorem dangling_followed_reference_fails_witness:
  "Some example_Self \<in> set (Schema.Types (SchemaBuilder.proto (AddTypes (NewSchemaBuilder ''s'') [example_Self]))) \<and>
   ''Missing'' \<in> set (dependencies example_Self) \<and>
   ''Missing'' \<notin> set (typeNames (Schema.Types (SchemaBuilder.proto (AddTypes (NewSchemaBuilder ''s'') [example_Self])))) \<and>
   SchemaBuilder_Build 1 (AddTypes (NewSchemaBuilder ''s'') [example_Self]) =
     Some (Inl NilPointerDereference)"
proof -
  let ?sb = "AddTypes (NewSchemaBuilder ''s'') [example_Self]"
  have dist: "distinct (typeNames (Schema.Types (SchemaBuilder.proto ?sb)))" by code_simp
  have t: "Some example_Self \<in> set (Schema.Types (SchemaBuilder.proto ?sb))"
    "\<not> isBaseType (nameOf example_Self)" by code_simp+
  have r: "''Missing'' \<in> set (dependencies example_Self)" "\<not> isBaseType ''Missing''"
    "''Missing'' \<notin> set (typeNames (Schema.Types (SchemaBuilder.proto ?sb)))" by code_simp+
  have "Build_Types 1 ?sb \<noteq> None" by code_simp
  then have "SchemaBuilder_Build 1 ?sb \<noteq> None" by (simp add: Build_Types_def)
  with dangling_followed_reference_fails [OF dist t r, of 1]
  have "SchemaBuilder_Build 1 ?sb = Some (Inl NilPointerDereference)" by blast
  with t(1) r(1,3) show ?thesis by blast
qed

text \<open>
  The claim as stated fails: the struct \<open>Index\<close> has an inline map field whose item type is
  the undeclared type \<open>Missing\<close>, and finalize returns a schema that holds \<open>Index\<close>.
  \<^verbatim>\<open>MapField\<close> stores the reference in \<^verbatim>\<open>Items\<close>, and \<^verbatim>\<open>resolve\<close> reads only \<^verbatim>\<open>f.Type\<close>, which is
  the Base Type name \<open>Map\<close>.
\<close>

theorem dangling_reference_counterexample:
  "(\<forall>k. Build_Types (1 + k) (AddTypes (NewSchemaBuilder ''s'') [example_Index]) =
        Some (Inr [Some example_Index])) \<and>
   ''Missing'' \<in> set (fieldItems example_Index) \<and>
   \<not> isBaseType ''Missing'' \<and>
   ''Missing'' \<notin> set (typeNames [Some example_Index])"
proof -
  have "Build_Types 1 (AddTypes (NewSchemaBuilder ''s'') [example_Index]) =
      Some (Inr [Some example_Index])"
    by code_simp
  then have "\<forall>k. Build_Types (1 + k) (AddTypes (NewSchemaBuilder ''s'') [example_Index]) =
        Some (Inr [Some example_Index])"
    by (rule Build_Types_all_fuel)
  moreover have
    "''Missing'' \<in> set (fieldItems example_Index) \<and>
     \<not> isBaseType ''Missing'' \<and>
     ''Missing'' \<notin> set (typeNames [Some example_Index])"
    by code_simp
  ultimately show ?thesis by blast
qed

text \<open>
  Claim C5, as amended. When the declared types, with unique names, hold a reference cycle
  (a non-empty set of declared names, none a Base Type name, each of which follows a
  reference into the set), finalize returns no schema and reports no Cycle error, whatever
  the fuel: the recursion has no end, unless a nil pointer panic stops it before.
\<close>

theorem reference_cycle_never_returns:
  assumes "distinct (typeNames (Schema.Types (SchemaBuilder.proto sb)))"
    and "S \<noteq> {}"
    and "\<forall>x\<in>S. \<not> isBaseType x \<and>
           (\<exists>t. Some t \<in> set (Schema.Types (SchemaBuilder.proto sb)) \<and> nameOf t = x \<and>
                (\<exists>r\<in>set (dependencies t). r \<in> S))"
  shows "SchemaBuilder_Build n sb = None \<or> SchemaBuilder_Build n sb = Some (Inl NilPointerDereference)"
proof -
  let ?ts = "Schema.Types (SchemaBuilder.proto sb)"
  have "SchemaBuilder_Build n sb \<noteq> Some (Inr s)" for s
  proof
    assume run: "SchemaBuilder_Build n sb = Some (Inr s)"
    from run assms(1) obtain all and resolved :: "string \<rightharpoonup> bool" where
      decl: "\<forall>t. Some t \<in> set ?ts \<longrightarrow>
        all (nameOf t) = Some t \<and> (isBaseType (nameOf t) \<or> nameOf t \<in> dom resolved)" and
      cyc: "\<forall>S. closed_cycle all S \<longrightarrow> set (typeNames ?ts) \<inter> S = {}"
      by (rule Build_sound)
    have "closed_cycle all S"
      unfolding closed_cycle_def
    proof
      fix x assume "x \<in> S"
      with assms(3) obtain t where "\<not> isBaseType x" "Some t \<in> set ?ts" "nameOf t = x"
        "\<exists>r\<in>set (dependencies t). r \<in> S" by blast
      with decl show "\<not> isBaseType x \<and> (\<exists>t. all x = Some t \<and> (\<exists>r\<in>set (dependencies t). r \<in> S))"
        by auto
    qed
    with cyc have "set (typeNames ?ts) \<inter> S = {}" by simp
    moreover from assms(2,3) obtain x t where "x \<in> S" "Some t \<in> set ?ts" "nameOf t = x" by blast
    ultimately show False by (auto simp: typeNames_set)
  qed
  then show ?thesis by (rule not_returned)
qed

text \<open>Two aliases of each other: with fuel 7 the recursion has not ended.\<close>

theorem reference_cycle_never_returns_witness:
  "distinct (typeNames (Schema.Types (SchemaBuilder.proto (AddTypes (NewSchemaBuilder ''s'') [example_A, example_B])))) \<and>
   ''B'' \<in> set (dependencies example_A) \<and> ''A'' \<in> set (dependencies example_B) \<and>
   SchemaBuilder_Build 7 (AddTypes (NewSchemaBuilder ''s'') [example_A, example_B]) = None"
proof -
  let ?sb = "AddTypes (NewSchemaBuilder ''s'') [example_A, example_B]"
  have dist: "distinct (typeNames (Schema.Types (SchemaBuilder.proto ?sb)))" by code_simp
  have ne: "{''A'', ''B''} \<noteq> ({} :: string set)" by simp
  have a: "\<not> isBaseType ''A''" "Some example_A \<in> set (Schema.Types (SchemaBuilder.proto ?sb))"
    "nameOf example_A = ''A''" "''B'' \<in> set (dependencies example_A)" by code_simp+
  have b: "\<not> isBaseType ''B''" "Some example_B \<in> set (Schema.Types (SchemaBuilder.proto ?sb))"
    "nameOf example_B = ''B''" "''A'' \<in> set (dependencies example_B)" by code_simp+
  have cyc: "\<forall>x\<in>{''A'', ''B''}. \<not> isBaseType x \<and>
           (\<exists>t. Some t \<in> set (Schema.Types (SchemaBuilder.proto ?sb)) \<and> nameOf t = x \<and>
                (\<exists>r\<in>set (dependencies t). r \<in> {''A'', ''B''}))"
    using a b by blast
  have "Build_Types 7 ?sb = None" by code_simp
  then have "SchemaBuilder_Build 7 ?sb \<noteq> Some (Inl NilPointerDereference)"
    by (auto simp: Build_Types_def)
  with reference_cycle_never_returns [OF dist ne cyc, of 7]
  have "SchemaBuilder_Build 7 ?sb = None" by blast
  with dist a(4) b(4) show ?thesis by blast
qed

text \<open>
  The claim as stated fails: for the two aliases of each other no amount of fuel lets the
  recursion end: finalize neither terminates nor reports a Cycle error.
\<close>

theorem reference_cycle_counterexample:
  "\<forall>n. SchemaBuilder_Build n (AddTypes (NewSchemaBuilder ''s'') [example_A, example_B]) = None"
proof
  fix n
  let ?r0 = "Build_resolved namesBaseType Map.empty"
  let ?all = "[''A'' \<mapsto> example_A, ''B'' \<mapsto> example_B]"
  have ts: "Schema.Types (SchemaBuilder.proto (AddTypes (NewSchemaBuilder ''s'') [example_A, example_B])) =
      [Some example_A, Some example_B]"
    by (simp add: SchemaBuilder_AddType_def NewSchemaBuilder_def)
  have names: "nameOf example_A = ''A''" "superOf example_A = ''B''"
    by (simp_all add: example_A_def AliasTypeBuilder_Build_def NewAliasTypeBuilder_def)
  have nb: "nameOf example_B = ''B''"
    by (simp add: example_B_def AliasTypeBuilder_Build_def NewAliasTypeBuilder_def)
  have all: "Build_all [Some example_A, Some example_B] Map.empty = Inr ?all"
    by (simp add: Build_all_Some names nb)
  have "''A'' \<notin> dom ?r0" "''B'' \<notin> dom ?r0"
    by (simp_all add: Build_resolved_dom namesBaseType_def)
  then have "?r0 ''A'' = None" "?r0 ''B'' = None" by (simp_all add: domIff)
  from example_cycle_resolve [OF this, of ?all n "[]"]
  have "resolve n [] ?r0 ?all ''A'' ''B'' = None" by simp
  then show "SchemaBuilder_Build n (AddTypes (NewSchemaBuilder ''s'') [example_A, example_B]) = None"
    unfolding SchemaBuilder_Build_def ts by (simp add: all Build_ordered_Some names)
qed

text \<open>
  Claim C6, as amended. When the declared types have unique names, none of them a Base Type
  name, every one is non-nil and readable, and every reference the resolver follows from a
  type is a Base Type name or the name of a type declared before it, finalize returns (with
  any fuel from 2 on) the schema with its types in the order they were appended.
\<close>

theorem valid_order_is_kept:
  assumes "distinct (typeNames (Schema.Types (SchemaBuilder.proto sb)))"
    and "\<forall>i<length (Schema.Types (SchemaBuilder.proto sb)).
           \<exists>t. Schema.Types (SchemaBuilder.proto sb) ! i = Some t \<and> \<not> isBaseType (nameOf t) \<and>
               readable t \<and>
               (\<forall>r\<in>set (dependencies t).
                  isBaseType r \<or> r \<in> set (typeNames (take i (Schema.Types (SchemaBuilder.proto sb)))))"
  shows "SchemaBuilder_Build (Suc (Suc n)) sb = Some (Inr (SchemaBuilder.proto sb))"
proof -
  let ?ts = "Schema.Types (SchemaBuilder.proto sb)"
  let ?r0 = "Build_resolved namesBaseType Map.empty"
  from assms(2) have "None \<notin> set ?ts" by (auto simp: in_set_conv_nth)
  then obtain all where a: "Build_all ?ts Map.empty = Inr all"
    using Build_all_total by blast
  have decl: "\<forall>t. Some t \<in> set ([] @ ?ts) \<longrightarrow> all (nameOf t) = Some t"
    using Build_all_declared [OF a assms(1)] by simp
  have "\<exists>resolved'. Build_ordered (Suc (Suc n)) ?ts [] ?r0 all = Some (Inr ([] @ ?ts, resolved'))"
    using decl
  proof (rule Build_ordered_valid)
    show "distinct (typeNames ([] @ ?ts))" using assms(1) by simp
    show "dom ?r0 \<subseteq> {k. isBaseType k} \<union> set (typeNames [])"
      by (auto simp: Build_resolved_dom namesBaseType_isBaseType)
    show "set (typeNames []) \<subseteq> dom ?r0" by simp
    show "\<forall>i<length ?ts. \<exists>t. ?ts ! i = Some t \<and> \<not> isBaseType (nameOf t) \<and> readable t \<and>
        (\<forall>r\<in>set (dependencies t). isBaseType r \<or> r \<in> set (typeNames ([] @ take i ?ts)))"
      using assms(2) by simp
  qed
  with a show ?thesis by (auto simp: SchemaBuilder_Build_def)
qed

text \<open>\<open>Point\<close> declared before \<open>Line\<close>: the order is kept.\<close>

theorem valid_order_is_kept_witness:
  "SchemaBuilder_Build 2 (AddTypes (NewSchemaBuilder ''geometry'') [example_Point, example_Line]) =
     Some (Inr (SchemaBuilder.proto (AddTypes (NewSchemaBuilder ''geometry'') [example_Point, example_Line]))) \<and>
   Schema.Types (SchemaBuilder.proto (AddTypes (NewSchemaBuilder ''geometry'') [example_Point, example_Line])) =
     [Some example_Point, Some example_Line]"
proof -
  let ?sb = "AddTypes (NewSchemaBuilder ''geometry'') [example_Point, example_Line]"
  let ?ts = "Schema.Types (SchemaBuilder.proto ?sb)"
  have ts: "?ts = [Some example_Point, Some example_Line]"
    by (simp add: SchemaBuilder_AddType_def NewSchemaBuilder_def)
  have dist: "distinct (typeNames ?ts)" by code_simp
  have p0: "?ts ! 0 = Some example_Point \<and> \<not> isBaseType (nameOf example_Point) \<and> readable example_Point \<and>
      (\<forall>r\<in>set (dependencies example_Point). isBaseType r \<or> r \<in> set (typeNames (take 0 ?ts)))"
    by code_simp
  have p1: "?ts ! 1 = Some example_Line \<and> \<not> isBaseType (nameOf example_Line) \<and> readable example_Line \<and>
      (\<forall>r\<in>set (dependencies example_Line). isBaseType r \<or> r \<in> set (typeNames (take 1 ?ts)))"
    by code_simp
  have ok: "\<forall>i<length ?ts. \<exists>t. ?ts ! i = Some t \<and> \<not> isBaseType (nameOf t) \<and> readable t \<and>
      (\<forall>r\<in>set (dependencies t). isBaseType r \<or> r \<in> set (typeNames (take i ?ts)))"
  proof (intro allI impI)
    fix i assume "i < length ?ts"
    then have "i < 2" unfolding ts by simp
    then have "i = 0 \<or> i = 1" by auto
    with p0 p1 show "\<exists>t. ?ts ! i = Some t \<and> \<not> isBaseType (nameOf t) \<and> readable t \<and>
      (\<forall>r\<in>set (dependencies t). isBaseType r \<or> r \<in> set (typeNames (take i ?ts)))"
      by blast
  qed
  have "SchemaBuilder_Build (Suc (Suc 0)) ?sb = Some (Inr (SchemaBuilder.proto ?sb))"
    using dist ok by (rule valid_order_is_kept)
  with ts show ?thesis by (simp add: numeral_2_eq_2)
qed

text \<open>
  The claim as stated fails: \<open>Point\<close> and a string type named \<open>UUID\<close> refer to Base Types only,
  so they are in a valid order; finalize returns \<open>Point\<close> alone.
\<close>

theorem valid_order_counterexample:
  "(\<forall>k. Build_Types (1 + k) (AddTypes (NewSchemaBuilder ''s'') [example_Point, example_UUID]) =
        Some (Inr [Some example_Point])) \<and>
   Schema.Types (SchemaBuilder.proto (AddTypes (NewSchemaBuilder ''s'') [example_Point, example_UUID])) =
     [Some example_Point, Some example_UUID] \<and>
   list_all isBaseType (superOf example_Point # fieldTypes example_Point) \<and>
   isBaseType (superOf example_UUID)"
proof -
  have "Build_Types 1 (AddTypes (NewSchemaBuilder ''s'') [example_Point, example_UUID]) =
      Some (Inr [Some example_Point])"
    by code_simp
  then have "\<forall>k. Build_Types (1 + k) (AddTypes (NewSchemaBuilder ''s'') [example_Point, example_UUID]) =
        Some (Inr [Some example_Point])"
    by (rule Build_Types_all_fuel)
  moreover have
    "Schema.Types (SchemaBuilder.proto (AddTypes (NewSchemaBuilder ''s'') [example_Point, example_UUID])) =
       [Some example_Point, Some example_UUID] \<and>
     list_all isBaseType (superOf example_Point # fieldTypes example_Point) \<and>
     isBaseType (superOf example_UUID)"
    by code_simp
  ultimately show ?thesis by blast
qed

text \<open>
  Claim C7. No type of a schema that finalize returns has a Base Type name: its name is
  rejected by \<^verbatim>\<open>isBaseType\<close>, that is, it is none of the eighteen names.
\<close>

theorem no_base_type_name_emitted:
  assumes "SchemaBuilder_Build n sb = Some (Inr s)" and "Some t \<in> set (Schema.Types s)"
  shows "\<not> isBaseType (nameOf t) \<and>
    nameOf t \<notin> set [''Bool'', ''Int8'', ''Int16'', ''Int32'', ''Int64'', ''Float32'', ''Float64'',
      ''String'', ''Bytes'', ''Timestamp'', ''Symbol'', ''UUID'',
      ''Struct'', ''Array'', ''Map'', ''Enum'', ''Union'', ''Any'']"
proof -
  from Build_no_base_names [OF assms(1)] assms(2) have "\<not> isBaseType (nameOf t)"
    by (auto simp: no_base_names_def hasBaseTypeName_def)
  then show ?thesis by (auto simp: isBaseType_def)
qed

text \<open>Example 2: \<open>IntList\<close> with items \<open>Int32\<close> is emitted, \<open>Int32\<close> is not.\<close>

theorem no_base_type_name_emitted_witness:
  "SchemaBuilder_Build 1 (AddTypes (NewSchemaBuilder ''s'') [example_IntList]) =
     Some (Inr ((SchemaBuilder.proto (AddTypes (NewSchemaBuilder ''s'') [example_IntList]))
                  \<lparr>Schema.Types := [Some example_IntList]\<rparr>)) \<and>
   \<not> isBaseType (nameOf example_IntList) \<and>
   nameOf example_IntList \<notin> set [''Bool'', ''Int8'', ''Int16'', ''Int32'', ''Int64'', ''Float32'', ''Float64'',
      ''String'', ''Bytes'', ''Timestamp'', ''Symbol'', ''UUID'',
      ''Struct'', ''Array'', ''Map'', ''Enum'', ''Union'', ''Any'']"
proof -
  let ?sb = "AddTypes (NewSchemaBuilder ''s'') [example_IntList]"
  let ?s = "(SchemaBuilder.proto ?sb)\<lparr>Schema.Types := [Some example_IntList]\<rparr>"
  have "Build_Types 1 ?sb = Some (Inr [Some example_IntList])" by code_simp
  then have run: "SchemaBuilder_Build 1 ?sb = Some (Inr ?s)" by (rule Build_Types_Inr)
  have "Some example_IntList \<in> set (Schema.Types ?s)" by simp
  from no_base_type_name_emitted [OF run this] run show ?thesis by blast
qed

text \<open>
  Claim C8. A string builder with no pattern, no size bound and no enumerated values builds
  an alias descriptor that carries the supertype, the name and the comment and nothing else;
  a builder with any of them builds the string descriptor. A new builder has none of them, a
  comment changes nothing, and a non-empty pattern, a maximum size and a minimum size each
  make the descriptor constrained.
\<close>

theorem StringTypeBuilder_Build_alias_or_string:
  "(\<not> constrained (StringTypeBuilder.st tb) \<longrightarrow>
      StringTypeBuilder_Build tb =
        TypeVariantAliasTypeDef
          \<lparr>AliasTypeDef.Type = StringTypeDef.Type (StringTypeBuilder.st tb),
           AliasTypeDef.Name = StringTypeDef.Name (StringTypeBuilder.st tb),
           AliasTypeDef.Comment = StringTypeDef.Comment (StringTypeBuilder.st tb)\<rparr>) \<and>
   (constrained (StringTypeBuilder.st tb) \<longrightarrow>
      StringTypeBuilder_Build tb = TypeVariantStringTypeDef (StringTypeBuilder.st tb)) \<and>
   \<not> constrained (StringTypeBuilder.st (NewStringTypeBuilder name)) \<and>
   constrained (StringTypeBuilder.st (StringTypeBuilder_Comment tb comment)) =
     constrained (StringTypeBuilder.st tb) \<and>
   (pattern \<noteq> [] \<longrightarrow>
      constrained (StringTypeBuilder.st (StringTypeBuilder_Pattern tb pattern))) \<and>
   constrained (StringTypeBuilder.st (StringTypeBuilder_MaxSize tb maxsize)) \<and>
   constrained (StringTypeBuilder.st (StringTypeBuilder_MinSize tb minsize))"
  by (auto simp: constrained_def StringTypeBuilder_Build_def NewStringTypeBuilder_def
      StringTypeBuilder_Comment_def StringTypeBuilder_Pattern_def StringTypeBuilder_MaxSize_def
      StringTypeBuilder_MinSize_def)

theorem StringTypeBuilder_Build_alias_or_string_witness:
  "StringTypeBuilder_Build (StringTypeBuilder_Comment (NewStringTypeBuilder ''Id'') ''an id'') =
     TypeVariantAliasTypeDef
       \<lparr>AliasTypeDef.Type = ''String'', AliasTypeDef.Name = ''Id'', AliasTypeDef.Comment = ''an id''\<rparr> \<and>
   StringTypeBuilder_Build (StringTypeBuilder_MinSize (NewStringTypeBuilder ''Id'') 1) =
     TypeVariantStringTypeDef
       \<lparr>StringTypeDef.Type = ''String'', StringTypeDef.Name = ''Id'', StringTypeDef.Comment = [],
        StringTypeDef.Pattern = [], StringTypeDef.Values = None, StringTypeDef.MinSize = Some 1,
        StringTypeDef.MaxSize = None\<rparr>"
  using StringTypeBuilder_Build_alias_or_string
          [of "StringTypeBuilder_Comment (NewStringTypeBuilder ''Id'') ''an id''"]
        StringTypeBuilder_Build_alias_or_string
          [of "StringTypeBuilder_MinSize (NewStringTypeBuilder ''Id'') 1"]
  by (simp add: constrained_def NewStringTypeBuilder_def StringTypeBuilder_Comment_def
      StringTypeBuilder_MinSize_def)

text \<open>
  Claim C9. When \<^verbatim>\<open>Exception\<close> is called several times on a resource builder, the finished
  resource maps an outcome symbol to the exception of the last call made under that symbol,
  whatever was registered under it before; and a symbol that none of the calls names keeps
  the entry it had.
\<close>

theorem Exception_last_registration_wins:
  "(symb \<notin> fst ` set later \<longrightarrow>
      Exceptions_lookup
        (ResourceBuilder_Build (Exception_calls rb (earlier @ (symb, typename, comment) # later))) symb =
      Some \<lparr>ExceptionDef.Type = typename, ExceptionDef.Comment = comment\<rparr>) \<and>
   (other \<notin> fst ` set calls \<longrightarrow>
      Exceptions_lookup (ResourceBuilder_Build (Exception_calls rb calls)) other =
      Exceptions_lookup (ResourceBuilder_Build rb) other)"
  by (simp add: Exception_calls_append Exception_calls_other Exception_lookup)

theorem Exception_last_registration_wins_witness:
  "Exceptions_lookup
     (ResourceBuilder_Build
        (ResourceBuilder_Exception
           (ResourceBuilder_Exception
              (ResourceBuilder_Exception (NewResourceBuilder ''Item'' ''GET'' ''/item/{id}'')
                 ''NOT_FOUND'' ''ResourceError'' ''first'')
              ''NOT_FOUND'' ''ItemError'' ''second'')
           ''FORBIDDEN'' ''ResourceError'' ''other''))
     ''NOT_FOUND'' =
   Some \<lparr>ExceptionDef.Type = ''ItemError'', ExceptionDef.Comment = ''second''\<rparr> \<and>
   Exceptions_lookup
     (ResourceBuilder_Build
        (ResourceBuilder_Exception (NewResourceBuilder ''Item'' ''GET'' ''/item/{id}'')
           ''NOT_FOUND'' ''ResourceError'' ''first''))
     ''FORBIDDEN'' = None"
  using Exception_last_registration_wins
    [of "''NOT_FOUND''" "[(''FORBIDDEN'', ''ResourceError'', ''other'')]"
        "NewResourceBuilder ''Item'' ''GET'' ''/item/{id}''"
        "[(''NOT_FOUND'', ''ResourceError'', ''first'')]" "''ItemError''" "''second''"
        "''FORBIDDEN''" "[(''NOT_FOUND'', ''ResourceError'', ''first'')]"]
  by (simp add: Exceptions_lookup_def ResourceBuilder_Build_def NewResourceBuilder_def)

text \<open>
  Claim C10. A declared type whose own name is a Base Type name is skipped in silence: with
  any fuel but 0, finalize does on the schema exactly what it does on the schema without
  such types (the same schema, the same panic or the same endless recursion), and no type of
  a schema that finalize returns has a Base Type name.
\<close>

theorem base_named_type_is_skipped:
  "(0 < n \<longrightarrow>
      SchemaBuilder_Build n sb =
      SchemaBuilder_Build n
        (sb\<lparr>SchemaBuilder.proto :=
              (SchemaBuilder.proto sb)
                \<lparr>Schema.Types :=
                   filter (\<lambda>x. \<not> hasBaseTypeName x) (Schema.Types (SchemaBuilder.proto sb))\<rparr>\<rparr>)) \<and>
   (SchemaBuilder_Build n sb = Some (Inr s) \<longrightarrow>
      (\<forall>x\<in>set (Schema.Types s). \<not> hasBaseTypeName x))"
proof (intro conjI impI)
  assume "0 < n"
  then obtain m where n: "n = Suc m" by (cases n) auto
  let ?ts = "Schema.Types (SchemaBuilder.proto sb)"
  let ?fs = "filter (\<lambda>x. \<not> hasBaseTypeName x) ?ts"
  let ?sb = "sb\<lparr>SchemaBuilder.proto := (SchemaBuilder.proto sb)\<lparr>Schema.Types := ?fs\<rparr>\<rparr>"
  have "agree Map.empty Map.empty" by (simp add: agree_def)
  from Build_all_agree [OF this, of ?ts]
  have rel: "rel_sum (=) agree (Build_all ?ts Map.empty) (Build_all ?fs Map.empty)" .
  show "SchemaBuilder_Build n sb = SchemaBuilder_Build n ?sb"
  proof (cases "Build_all ?ts Map.empty")
    case (Inl e)
    with rel have "Build_all ?fs Map.empty = Inl e"
      by (cases "Build_all ?fs Map.empty") simp_all
    with Inl show ?thesis by (simp add: SchemaBuilder_Build_def)
  next
    case (Inr all)
    with rel obtain all' where all': "Build_all ?fs Map.empty = Inr all'" "agree all all'"
      by (cases "Build_all ?fs Map.empty") simp_all
    from Build_ordered_agree [OF all'(2), of m ?ts] Inr all'(1) show ?thesis
      by (simp add: SchemaBuilder_Build_def n split: option.splits sum.splits)
  qed
next
  assume "SchemaBuilder_Build n sb = Some (Inr s)"
  from Build_no_base_names [OF this] show "\<forall>x\<in>set (Schema.Types s). \<not> hasBaseTypeName x"
    by (simp add: no_base_names_def)
qed

text \<open>A string type named \<open>UUID\<close>, declared before \<open>Point\<close>, makes no difference.\<close>

theorem base_named_type_is_skipped_witness:
  "SchemaBuilder_Build 1 (AddTypes (NewSchemaBuilder ''s'') [example_UUID, example_Point]) =
     SchemaBuilder_Build 1 (AddTypes (NewSchemaBuilder ''s'') [example_Point]) \<and>
   SchemaBuilder_Build 1 (AddTypes (NewSchemaBuilder ''s'') [example_UUID, example_Point]) =
     Some (Inr ((SchemaBuilder.proto (AddTypes (NewSchemaBuilder ''s'') [example_UUID, example_Point]))
                  \<lparr>Schema.Types := [Some example_Point]\<rparr>)) \<and>
   hasBaseTypeName (Some example_UUID) \<and> \<not> hasBaseTypeName (Some example_Point)"
proof -
  let ?sb = "AddTypes (NewSchemaBuilder ''s'') [example_UUID, example_Point]"
  let ?s = "(SchemaBuilder.proto ?sb)\<lparr>Schema.Types := [Some example_Point]\<rparr>"
  have h: "hasBaseTypeName (Some example_UUID)" "\<not> hasBaseTypeName (Some example_Point)"
    by code_simp+
  have filtered: "?sb\<lparr>SchemaBuilder.proto :=
          (SchemaBuilder.proto ?sb)
            \<lparr>Schema.Types := filter (\<lambda>x. \<not> hasBaseTypeName x) (Schema.Types (SchemaBuilder.proto ?sb))\<rparr>\<rparr> =
        AddTypes (NewSchemaBuilder ''s'') [example_Point]"
    using h by (simp add: SchemaBuilder_AddType_def NewSchemaBuilder_def)
  have "Build_Types 1 ?sb = Some (Inr [Some example_Point])" by code_simp
  then have run: "SchemaBuilder_Build 1 ?sb = Some (Inr ?s)" by (rule Build_Types_Inr)
  from base_named_type_is_skipped [of 1 ?sb ?s] filtered run h show ?thesis by simp
qed

end
